theory Spec2Isabelle
  imports Main "HOL-Library.Word" "HOL-Library.Signed_Division"
begin

unbundle bit_operations_syntax

section \<open>Machine types and compile-time constants\<close>

text \<open>
  The driver is built for 64-bit Windows: \<open>UINT32\<close> and \<open>unsigned long\<close> are 32 bits,
  \<open>INT64\<close> and \<open>SIZE_T\<close> are 64 bits. Words wrap around; signed values are read with
  \<open>sint\<close> and compared with \<open><s\<close> and \<open>\<le>s\<close>. A request handle is opaque.
\<close>

type_synonym UINT32 = "32 word"
type_synonym INT64 = "64 word"
type_synonym SIZE_T = "64 word"
type_synonym PHYSICAL_ADDRESS = "64 word"
type_synonym NTSTATUS = "32 word"
type_synonym WDFREQUEST = nat

definition NT_SUCCESS :: "NTSTATUS \<Rightarrow> bool" where
  "NT_SUCCESS status = (0 \<le>s status)"

definition STATUS_SUCCESS :: NTSTATUS where
  "STATUS_SUCCESS = 0"

definition LowPart :: "PHYSICAL_ADDRESS \<Rightarrow> UINT32" where
  "LowPart a = ucast a"

definition HighPart :: "PHYSICAL_ADDRESS \<Rightarrow> UINT32" where
  "HighPart a = ucast (drop_bit 32 a)"

text \<open>
  The macros of the headers (\<open>driver.h\<close>, \<open>csr.h\<close>) are parameters. The DMA constants are
  plain \<open>int\<close> literals in C, so they are 32-bit values that are sign-extended where C
  converts them to a 64-bit type. \<open>DMA_BUFFER_ALIGNED\<close> tells whether that macro is defined.
\<close>

record dma_config =
  DMA_BUFFER_COUNT :: "32 word"
  DMA_BUFFER_SIZE :: "32 word"
  DMA_BUFFER_PER_IRQ :: "32 word"
  DMA_IRQ_DISABLE :: "32 word"
  DMA_LAST_DISABLE :: "32 word"
  DMA_BUFFER_ALIGNED :: bool

record csr_map =
  PCIE_DMA_WRITER_ENABLE_OFFSET :: UINT32
  PCIE_DMA_WRITER_TABLE_FLUSH_OFFSET :: UINT32
  PCIE_DMA_WRITER_TABLE_LOOP_PROG_N_OFFSET :: UINT32
  PCIE_DMA_WRITER_TABLE_VALUE_OFFSET :: UINT32
  PCIE_DMA_WRITER_TABLE_WE_OFFSET :: UINT32
  PCIE_DMA_WRITER_TABLE_LOOP_STATUS_OFFSET :: UINT32
  PCIE_DMA_READER_ENABLE_OFFSET :: UINT32
  PCIE_DMA_READER_TABLE_FLUSH_OFFSET :: UINT32
  PCIE_DMA_READER_TABLE_LOOP_PROG_N_OFFSET :: UINT32
  PCIE_DMA_READER_TABLE_VALUE_OFFSET :: UINT32
  PCIE_DMA_READER_TABLE_WE_OFFSET :: UINT32
  PCIE_DMA_READER_TABLE_LOOP_STATUS_OFFSET :: UINT32
  CSR_PCIE_MSI_ENABLE_ADDR :: UINT32
  CSR_PCIE_MSI_CLEAR_ADDR :: UINT32
  CSR_PCIE_MSI_VECTOR_ADDR :: UINT32

section \<open>Device context\<close>

text \<open>
  Modelled from the spec: the declaration of \<open>struct litepcie_dma_chan\<close> (in \<open>driver.h\<close>,
  which is not among the sources). The fields are the ones \<open>Device.c\<close> reads and writes.
  The three counters of each direction are the 64-bit counts of the spec's data model,
  signed as the \<open>INT64\<close> arithmetic and casts of \<open>Device.c\<close> have them. The reader
  direction serves \<open>litepciedrv_ChannelWrite\<close> and the writer direction serves
  \<open>litepciedrv_ChannelRead\<close>. The buffer handles (host-virtual addresses) are identified
  by their slot number; the locks appear in the events only.
\<close>

record litepcie_dma_chan =
  base :: UINT32
  writer_interrupt :: UINT32
  reader_interrupt :: UINT32
  reader_addr :: "PHYSICAL_ADDRESS list"
  writer_addr :: "PHYSICAL_ADDRESS list"
  reader_hw_count :: INT64
  reader_hw_count_last :: INT64
  reader_sw_count :: INT64
  writer_hw_count :: INT64
  writer_hw_count_last :: INT64
  writer_sw_count :: INT64
  readRequest :: "WDFREQUEST option"
  readRemainingBytes :: SIZE_T
  writeRequest :: "WDFREQUEST option"
  writeRemainingBytes :: SIZE_T

text \<open>
  Modelled from the spec: the declaration of the channel struct behind \<open>PLITEPCIE_CHAN\<close>
  (in \<open>driver.h\<close>): its index, its block size and its DMA state.
\<close>

record litepcie_chan =
  index :: UINT32
  block_size :: UINT32
  dma :: litepcie_dma_chan

text \<open>
  Modelled from the spec: the declaration of \<open>DEVICE_CONTEXT\<close> (in \<open>driver.h\<close>), with the
  fields the ring and interrupt code uses. The list \<open>chan\<close> holds \<open>chan[0]\<close> to
  \<open>chan[channels - 1]\<close>, so a loop over \<open>i < dev->channels\<close> is a traversal of the list.
\<close>

record device =
  chan :: "litepcie_chan list"
  irqs_requested :: UINT32
  irqs_pending :: UINT32

text \<open>
  What the framework answers when a request's memory is retrieved
  (\<open>WdfRequestRetrieveOutputMemory\<close>, \<open>WdfRequestRetrieveInputMemory\<close>).
\<close>

record wdf =
  RetrieveOutputMemory :: "WDFREQUEST \<Rightarrow> NTSTATUS"
  RetrieveInputMemory :: "WDFREQUEST \<Rightarrow> NTSTATUS"

section \<open>Effects\<close>

text \<open>
  Everything the code does besides updating the device context is recorded, in program
  order, as a list of events: register writes, spin lock calls, the accesses to a
  direction's counters (\<open>hw_count\<close>, \<open>hw_count_last\<close>, \<open>sw_count\<close>), buffer copies (request
  offset and ring slot), request completions, the error trace of the overflow count,
  the settle delay and the queueing of the DPC. A lock and a counter access name the
  channel index and the direction. A counter access also says which statement it is:
  the computation of \<open>available_count\<close>, the read of \<open>sw_count\<close> for the slot index of a
  copy, the increment of \<open>sw_count\<close>, the reconciliation of \<open>hw_count\<close> in the DPC, or the
  reset of the three counters by start and stop.
\<close>

datatype direction = Reader | Writer

datatype counter_access = Available | SlotIndex | Increment | Reconcile | Reset

datatype event =
    RegWritel UINT32 UINT32
  | SpinLockAcquire UINT32 direction
  | SpinLockRelease UINT32 direction
  | CounterAccess UINT32 direction counter_access
  | MemoryCopy direction SIZE_T int
  | RequestCompleteWithInformation WDFREQUEST NTSTATUS SIZE_T
  | TraceOverflow direction UINT32
  | StallExecutionProcessor nat
  | InterruptQueueDpcForIsr

section \<open>Counter reconciliation\<close>

text \<open>\<open>leftmost_bit\<close>: the loop shifts \<open>x\<close> right until it is at most 1.\<close>

function leftmost_bit_loop :: "UINT32 \<Rightarrow> UINT32 \<Rightarrow> UINT32" where
  "leftmost_bit_loop x i = (if 1 < x then leftmost_bit_loop (drop_bit 1 x) (i + 1) else i)"
  by pat_completeness auto
termination
proof (relation "measure (\<lambda>(x, i). unat x)")
  show "wf (measure (\<lambda>(x::UINT32, i::UINT32). unat x))" by simp
next
  fix x i :: UINT32
  assume "1 < x"
  then have "0 < unat x" by (simp add: word_less_nat_alt)
  then have "unat x div 2 < unat x" by simp
  then show "((drop_bit 1 x, i + 1), (x, i)) \<in> measure (\<lambda>(x, i). unat x)"
    by (simp add: unat_drop_bit_eq drop_bit_eq_div unat_div)
qed

declare leftmost_bit_loop.simps [simp del]

definition leftmost_bit :: "UINT32 \<Rightarrow> UINT32" where
  "leftmost_bit x = leftmost_bit_loop x 0"

text \<open>
  The four statements of \<open>litepcie_EvtDpc\<close> that rebuild a direction's \<open>hw_count\<close> from the
  loop status register (the same for the reader and the writer direction).

  \<open>(~(DMA_BUFFER_COUNT - 1) << 16) & 0xffffffffffff0000\<close>: the left operand is an \<open>int\<close>,
  shifted in 32 bits and then sign-extended to 64 bits for the \<open>&\<close>.
  \<open>(loop_status >> 16) * DMA_BUFFER_COUNT + (loop_status & 0xffff)\<close> is computed in 32
  bits unsigned and zero-extended for the \<open>|=\<close>. \<open>1UL << (leftmost_bit(...) + 16)\<close> is a
  32-bit unsigned shift (undefined in C from 32 bits on, 0 here), zero-extended by the
  cast to \<open>INT64\<close>.
\<close>

definition hw_count_mask :: "dma_config \<Rightarrow> INT64" where
  "hw_count_mask cfg =
     scast (push_bit 16 (NOT (DMA_BUFFER_COUNT cfg - 1))) AND 0xffffffffffff0000"

definition loop_count :: "dma_config \<Rightarrow> UINT32 \<Rightarrow> UINT32" where
  "loop_count cfg loop_status =
     drop_bit 16 loop_status * DMA_BUFFER_COUNT cfg + (loop_status AND 0xffff)"

definition wrap_increment :: "dma_config \<Rightarrow> INT64" where
  "wrap_increment cfg =
     ucast (push_bit (unat (leftmost_bit (DMA_BUFFER_COUNT cfg) + 16)) (1 :: 32 word))"

definition reconcile :: "dma_config \<Rightarrow> UINT32 \<Rightarrow> INT64 \<times> INT64 \<Rightarrow> INT64 \<times> INT64" where
  "reconcile cfg loop_status = (\<lambda>(hw_count, hw_count_last).
     let hw1 = hw_count AND hw_count_mask cfg;
         hw2 = hw1 OR ucast (loop_count cfg loop_status);
         hw3 = (if hw2 <s hw_count_last then hw2 + wrap_increment cfg else hw2)
     in (hw3, hw3))"

text \<open>
  A sequence of reconciliations of one direction: the pairs
  \<open>(hw_count, hw_count_last)\<close> after each raw loop status value.
\<close>

fun reconcile_seq :: "dma_config \<Rightarrow> UINT32 list \<Rightarrow> INT64 \<times> INT64 \<Rightarrow> (INT64 \<times> INT64) list" where
  "reconcile_seq cfg [] s = []"
| "reconcile_seq cfg (loop_status # rest) s =
     reconcile cfg loop_status s # reconcile_seq cfg rest (reconcile cfg loop_status s)"

section \<open>Channel I/O\<close>

text \<open>
  The \<open>while\<close> loop of \<open>litepciedrv_ChannelRead\<close> (on the writer counters) and of
  \<open>litepciedrv_ChannelWrite\<close> (on the reader counters): the two loops are the same
  statements on the counters of direction \<open>d\<close>. The loop state is \<open>sw_count\<close>, the bytes
  done, the overflow count and the events so far; \<open>hw_count\<close> is not written by the loop.

  The lock is taken for \<open>available_count = hw_count - sw_count\<close> only. The copy reads
  \<open>sw_count % DMA_BUFFER_COUNT\<close> (C's truncating remainder on \<open>INT64\<close>; the source takes
  \<open>DMA_BUFFER_COUNT\<close> to be nonzero) and \<open>sw_count += 1\<close> follows it, both after the
  release.
\<close>

definition slot_index :: "dma_config \<Rightarrow> INT64 \<Rightarrow> int" where
  "slot_index cfg sw_count = sint sw_count smod sint (DMA_BUFFER_COUNT cfg)"

function transfer_loop ::
  "dma_config \<Rightarrow> UINT32 \<Rightarrow> direction \<Rightarrow> INT64 \<Rightarrow> SIZE_T \<Rightarrow>
   INT64 \<times> SIZE_T \<times> UINT32 \<times> event list \<Rightarrow> INT64 \<times> SIZE_T \<times> UINT32 \<times> event list" where
  "transfer_loop cfg ix d hw_count len (sw_count, bytes, overflows, evs) =
     (if bytes < len then
        if len - bytes < scast (DMA_BUFFER_SIZE cfg) then (sw_count, bytes, overflows, evs)
        else if 0 <s hw_count - sw_count then
          transfer_loop cfg ix d hw_count len
            (sw_count + 1,
             bytes + scast (DMA_BUFFER_SIZE cfg),
             (if scast (DMA_BUFFER_COUNT cfg - DMA_BUFFER_PER_IRQ cfg) <s hw_count - sw_count
              then overflows + 1 else overflows),
             evs @ [SpinLockAcquire ix d, CounterAccess ix d Available, SpinLockRelease ix d,
                    CounterAccess ix d SlotIndex, MemoryCopy d bytes (slot_index cfg sw_count),
                    CounterAccess ix d Increment])
        else (sw_count, bytes, overflows,
              evs @ [SpinLockAcquire ix d, CounterAccess ix d Available, SpinLockRelease ix d])
      else (sw_count, bytes, overflows, evs))"
  by pat_completeness auto

termination transfer_loop
proof (relation "measure (\<lambda>(cfg, ix, d, hw_count, len, sw_count, rest). nat (sint (hw_count - sw_count)))")
  show "wf (measure (\<lambda>(cfg :: dma_config, ix :: UINT32, d :: direction, hw_count :: INT64,
      len :: SIZE_T, sw_count :: INT64, rest :: SIZE_T \<times> UINT32 \<times> event list).
      nat (sint (hw_count - sw_count))))"
    by simp
next
  fix cfg :: dma_config and ix :: UINT32 and d :: direction and hw_count :: INT64
    and len bytes :: SIZE_T and sw_count :: INT64 and overflows :: UINT32 and evs :: "event list"
  assume avail: "0 <s hw_count - sw_count"
  have shift: "hw_count - (sw_count + 1) = hw_count - sw_count - 1"
    by (simp only: diff_diff_eq)
  have pos: "0 < sint (hw_count - sw_count)"
    using avail by (simp add: word_sless_alt)
  have "sint (hw_count - sw_count - 1) = sint (hw_count - sw_count) - 1"
  proof -
    have "sint (hw_count - sw_count) < 2 ^ 63"
      using sint_lt [of "hw_count - sw_count"] by simp
    with pos have "signed_take_bit 63 (sint (hw_count - sw_count) - 1) = sint (hw_count - sw_count) - 1"
      by (intro signed_take_bit_int_eq_self) simp_all
    then show ?thesis by (simp add: sint_word_diff)
  qed
  then have "sint (hw_count - (sw_count + 1)) = sint (hw_count - sw_count) - 1"
    by (simp only: shift)
  with pos have "nat (sint (hw_count - (sw_count + 1))) < nat (sint (hw_count - sw_count))"
    by linarith
  then show "((cfg, ix, d, hw_count, len, sw_count + 1, bytes + scast (DMA_BUFFER_SIZE cfg),
       (if scast (DMA_BUFFER_COUNT cfg - DMA_BUFFER_PER_IRQ cfg) <s hw_count - sw_count
        then overflows + 1 else overflows),
       evs @ [SpinLockAcquire ix d, CounterAccess ix d Available, SpinLockRelease ix d,
              CounterAccess ix d SlotIndex, MemoryCopy d bytes (slot_index cfg sw_count),
              CounterAccess ix d Increment]),
      (cfg, ix, d, hw_count, len, sw_count, bytes, overflows, evs))
    \<in> measure (\<lambda>(cfg, ix, d, hw_count, len, sw_count, rest). nat (sint (hw_count - sw_count)))"
    by simp
qed

declare transfer_loop.simps [simp del]

text \<open>
  \<open>litepciedrv_ChannelRead\<close>: a failed retrieval completes the request with the error
  and zero bytes and returns. After the loop, the overflow count is traced when it is
  positive; a positive byte count completes the request and clears the parked request,
  a zero byte count parks the request.
\<close>

definition litepciedrv_ChannelRead ::
  "dma_config \<Rightarrow> wdf \<Rightarrow> litepcie_chan \<Rightarrow> WDFREQUEST \<Rightarrow> SIZE_T \<Rightarrow> litepcie_chan \<times> event list" where
  "litepciedrv_ChannelRead cfg fw channel request len =
     (let status = RetrieveOutputMemory fw request in
      if \<not> NT_SUCCESS status
      then (channel, [RequestCompleteWithInformation request status 0])
      else
        case transfer_loop cfg (index channel) Writer (writer_hw_count (dma channel)) len
               (writer_sw_count (dma channel), 0, 0, []) of
          (sw_count, bytesRead, overflows, evs) \<Rightarrow>
            let evs1 = evs @ (if 0 < overflows then [TraceOverflow Writer overflows] else [])
            in if 0 < bytesRead
               then (channel\<lparr>dma := (dma channel)\<lparr>writer_sw_count := sw_count,
                        readRequest := None, readRemainingBytes := 0\<rparr>\<rparr>,
                     evs1 @ [RequestCompleteWithInformation request STATUS_SUCCESS bytesRead])
               else (channel\<lparr>dma := (dma channel)\<lparr>writer_sw_count := sw_count,
                        readRequest := Some request, readRemainingBytes := len - bytesRead\<rparr>\<rparr>,
                     evs1))"

definition litepciedrv_ChannelWrite ::
  "dma_config \<Rightarrow> wdf \<Rightarrow> litepcie_chan \<Rightarrow> WDFREQUEST \<Rightarrow> SIZE_T \<Rightarrow> litepcie_chan \<times> event list" where
  "litepciedrv_ChannelWrite cfg fw channel request len =
     (let status = RetrieveInputMemory fw request in
      if \<not> NT_SUCCESS status
      then (channel, [RequestCompleteWithInformation request status 0])
      else
        case transfer_loop cfg (index channel) Reader (reader_hw_count (dma channel)) len
               (reader_sw_count (dma channel), 0, 0, []) of
          (sw_count, bytesWritten, overflows, evs) \<Rightarrow>
            let evs1 = evs @ (if 0 < overflows then [TraceOverflow Reader overflows] else [])
            in if 0 < bytesWritten
               then (channel\<lparr>dma := (dma channel)\<lparr>reader_sw_count := sw_count,
                        writeRequest := None, writeRemainingBytes := 0\<rparr>\<rparr>,
                     evs1 @ [RequestCompleteWithInformation request STATUS_SUCCESS bytesWritten])
               else (channel\<lparr>dma := (dma channel)\<lparr>reader_sw_count := sw_count,
                        writeRequest := Some request, writeRemainingBytes := len - bytesWritten\<rparr>\<rparr>,
                     evs1))"

section \<open>Ring start and stop\<close>

text \<open>
  The value register of a descriptor:
  \<open>DMA_LAST_DISABLE | (!(i % DMA_BUFFER_PER_IRQ == 0)) * DMA_IRQ_DISABLE | DMA_BUFFER_SIZE\<close>,
  where \<open>DMA_LAST_DISABLE\<close> is left out when \<open>DMA_BUFFER_ALIGNED\<close> is defined. The source
  takes \<open>DMA_BUFFER_PER_IRQ\<close> to be nonzero (\<open>%\<close> by zero traps in C).
\<close>

definition descriptor_value :: "dma_config \<Rightarrow> UINT32 \<Rightarrow> UINT32" where
  "descriptor_value cfg i =
     (if DMA_BUFFER_ALIGNED cfg then 0 else DMA_LAST_DISABLE cfg) OR
     ((if i mod DMA_BUFFER_PER_IRQ cfg = 0 then 0 else 1) * DMA_IRQ_DISABLE cfg) OR
     DMA_BUFFER_SIZE cfg"

text \<open>
  The \<open>for\<close> loop that fills the descriptor table, for \<open>i\<close> from its current value up to
  \<open>DMA_BUFFER_COUNT\<close>. \<open>value_reg\<close> and \<open>we_reg\<close> are the addresses of the table's value and
  write-enable registers, \<open>addr\<close> is the address array the loop reads and \<open>ix\<close> the
  subscript it reads it at. Reading the array out of range is undefined in C: \<open>None\<close>.
\<close>

function descriptor_loop ::
  "dma_config \<Rightarrow> UINT32 \<Rightarrow> UINT32 \<Rightarrow> PHYSICAL_ADDRESS list \<Rightarrow> UINT32 \<Rightarrow> UINT32 \<Rightarrow>
   event list \<Rightarrow> event list option" where
  "descriptor_loop cfg value_reg we_reg addr ix i evs =
     (if i < DMA_BUFFER_COUNT cfg then
        if unat ix < length addr then
          descriptor_loop cfg value_reg we_reg addr ix (i + 1)
            (evs @ [RegWritel value_reg (descriptor_value cfg i),
                    RegWritel (value_reg + 4) (LowPart (addr ! unat ix)),
                    RegWritel we_reg (HighPart (addr ! unat ix))])
        else None
      else Some evs)"
  by pat_completeness auto
termination
proof (relation "measure (\<lambda>(cfg, value_reg, we_reg, addr, ix, i, evs).
    unat (DMA_BUFFER_COUNT cfg) - unat i)")
  show "wf (measure (\<lambda>(cfg :: dma_config, value_reg :: UINT32, we_reg :: UINT32,
      addr :: PHYSICAL_ADDRESS list, ix :: UINT32, i :: UINT32, evs :: event list).
      unat (DMA_BUFFER_COUNT cfg) - unat i))"
    by simp
next
  fix cfg :: dma_config and value_reg we_reg ix i :: UINT32
    and addr :: "PHYSICAL_ADDRESS list" and evs :: "event list"
  assume less: "i < DMA_BUFFER_COUNT cfg"
  then have "unat i < unat (DMA_BUFFER_COUNT cfg)" by (simp add: word_less_nat_alt)
  moreover have "unat (DMA_BUFFER_COUNT cfg) < 2 ^ 32"
    using unsigned_less [of "DMA_BUFFER_COUNT cfg", where 'a = nat] by simp
  ultimately have "unat i + 1 < 2 ^ 32" by linarith
  then have "unat (i + 1) = unat i + 1"
    using unat_add_lem [of i 1] by simp
  with \<open>unat i < unat (DMA_BUFFER_COUNT cfg)\<close>
  have "unat (DMA_BUFFER_COUNT cfg) - unat (i + 1) < unat (DMA_BUFFER_COUNT cfg) - unat i"
    by linarith
  then show "((cfg, value_reg, we_reg, addr, ix, i + 1,
       evs @ [RegWritel value_reg (descriptor_value cfg i),
              RegWritel (value_reg + 4) (LowPart (addr ! unat ix)),
              RegWritel we_reg (HighPart (addr ! unat ix))]),
      (cfg, value_reg, we_reg, addr, ix, i, evs))
    \<in> measure (\<lambda>(cfg, value_reg, we_reg, addr, ix, i, evs).
        unat (DMA_BUFFER_COUNT cfg) - unat i)"
    by simp
qed

declare descriptor_loop.simps [simp del]

text \<open>
  \<open>litepcie_dma_writer_start\<close> and \<open>litepcie_dma_reader_start\<close>. Both read
  \<open>dmachan->writer_addr[index]\<close> in the loop, \<open>index\<close> being the channel number passed to
  the function. \<open>dev->chan[index]\<close> out of range is undefined in C: \<open>None\<close>.
\<close>

definition litepcie_dma_writer_start ::
  "dma_config \<Rightarrow> csr_map \<Rightarrow> device \<Rightarrow> UINT32 \<Rightarrow> (device \<times> event list) option" where
  "litepcie_dma_writer_start cfg csr dev ix =
     (if unat ix < length (chan dev) then
        let channel = chan dev ! unat ix; dmachan = dma channel in
        case descriptor_loop cfg
               (base dmachan + PCIE_DMA_WRITER_TABLE_VALUE_OFFSET csr)
               (base dmachan + PCIE_DMA_WRITER_TABLE_WE_OFFSET csr)
               (writer_addr dmachan) ix 0
               [RegWritel (base dmachan + PCIE_DMA_WRITER_ENABLE_OFFSET csr) 0,
                RegWritel (base dmachan + PCIE_DMA_WRITER_TABLE_FLUSH_OFFSET csr) 1,
                RegWritel (base dmachan + PCIE_DMA_WRITER_TABLE_LOOP_PROG_N_OFFSET csr) 0] of
          None \<Rightarrow> None
        | Some evs \<Rightarrow>
            Some (dev\<lparr>chan := (chan dev)[unat ix := channel\<lparr>dma := dmachan\<lparr>writer_hw_count := 0,
                          writer_hw_count_last := 0, writer_sw_count := 0\<rparr>\<rparr>]\<rparr>,
                  evs @ [RegWritel (base dmachan + PCIE_DMA_WRITER_TABLE_LOOP_PROG_N_OFFSET csr) 1,
                         CounterAccess ix Writer Reset,
                         RegWritel (base dmachan + PCIE_DMA_WRITER_ENABLE_OFFSET csr) 1])
      else None)"

definition litepcie_dma_reader_start ::
  "dma_config \<Rightarrow> csr_map \<Rightarrow> device \<Rightarrow> UINT32 \<Rightarrow> (device \<times> event list) option" where
  "litepcie_dma_reader_start cfg csr dev ix =
     (if unat ix < length (chan dev) then
        let channel = chan dev ! unat ix; dmachan = dma channel in
        case descriptor_loop cfg
               (base dmachan + PCIE_DMA_READER_TABLE_VALUE_OFFSET csr)
               (base dmachan + PCIE_DMA_READER_TABLE_WE_OFFSET csr)
               (writer_addr dmachan) ix 0
               [RegWritel (base dmachan + PCIE_DMA_READER_ENABLE_OFFSET csr) 0,
                RegWritel (base dmachan + PCIE_DMA_READER_TABLE_FLUSH_OFFSET csr) 1,
                RegWritel (base dmachan + PCIE_DMA_READER_TABLE_LOOP_PROG_N_OFFSET csr) 0] of
          None \<Rightarrow> None
        | Some evs \<Rightarrow>
            Some (dev\<lparr>chan := (chan dev)[unat ix := channel\<lparr>dma := dmachan\<lparr>reader_hw_count := 0,
                          reader_hw_count_last := 0, reader_sw_count := 0\<rparr>\<rparr>]\<rparr>,
                  evs @ [RegWritel (base dmachan + PCIE_DMA_READER_TABLE_LOOP_PROG_N_OFFSET csr) 1,
                         CounterAccess ix Reader Reset,
                         RegWritel (base dmachan + PCIE_DMA_READER_ENABLE_OFFSET csr) 1])
      else None)"

text \<open>\<open>litepcie_dma_writer_stop\<close> and \<open>litepcie_dma_reader_stop\<close>.\<close>

definition litepcie_dma_writer_stop ::
  "csr_map \<Rightarrow> device \<Rightarrow> UINT32 \<Rightarrow> (device \<times> event list) option" where
  "litepcie_dma_writer_stop csr dev ix =
     (if unat ix < length (chan dev) then
        let channel = chan dev ! unat ix; dmachan = dma channel in
        Some (dev\<lparr>chan := (chan dev)[unat ix := channel\<lparr>dma := dmachan\<lparr>writer_hw_count := 0,
                      writer_hw_count_last := 0, writer_sw_count := 0\<rparr>\<rparr>]\<rparr>,
              [RegWritel (base dmachan + PCIE_DMA_WRITER_TABLE_LOOP_PROG_N_OFFSET csr) 0,
               RegWritel (base dmachan + PCIE_DMA_WRITER_TABLE_FLUSH_OFFSET csr) 1,
               StallExecutionProcessor 1000,
               RegWritel (base dmachan + PCIE_DMA_WRITER_ENABLE_OFFSET csr) 0,
               RegWritel (base dmachan + PCIE_DMA_WRITER_TABLE_FLUSH_OFFSET csr) 1,
               CounterAccess ix Writer Reset])
      else None)"

definition litepcie_dma_reader_stop ::
  "csr_map \<Rightarrow> device \<Rightarrow> UINT32 \<Rightarrow> (device \<times> event list) option" where
  "litepcie_dma_reader_stop csr dev ix =
     (if unat ix < length (chan dev) then
        let channel = chan dev ! unat ix; dmachan = dma channel in
        Some (dev\<lparr>chan := (chan dev)[unat ix := channel\<lparr>dma := dmachan\<lparr>reader_hw_count := 0,
                      reader_hw_count_last := 0, reader_sw_count := 0\<rparr>\<rparr>]\<rparr>,
              [RegWritel (base dmachan + PCIE_DMA_READER_TABLE_LOOP_PROG_N_OFFSET csr) 0,
               RegWritel (base dmachan + PCIE_DMA_READER_TABLE_FLUSH_OFFSET csr) 1,
               StallExecutionProcessor 1000,
               RegWritel (base dmachan + PCIE_DMA_READER_ENABLE_OFFSET csr) 0,
               RegWritel (base dmachan + PCIE_DMA_READER_TABLE_FLUSH_OFFSET csr) 1,
               CounterAccess ix Reader Reset])
      else None)"

section \<open>Interrupt handling\<close>

text \<open>
  \<open>litepcie_EvtIsr\<close>. \<open>regs\<close> gives the value a register read returns. The result is the
  \<open>BOOLEAN\<close> the handler returns, the device context and the events. The write to the
  clear register is compiled in when \<open>CSR_PCIE_MSI_CLEAR_ADDR\<close> is defined, and
  \<open>litepcie_enable_interrupt\<close> does not compile without it.
\<close>

definition litepcie_EvtIsr ::
  "csr_map \<Rightarrow> (UINT32 \<Rightarrow> UINT32) \<Rightarrow> device \<Rightarrow> bool \<times> device \<times> event list" where
  "litepcie_EvtIsr csr regs dev =
     (let irqVec = regs (CSR_PCIE_MSI_VECTOR_ADDR csr) in
      if irqVec \<noteq> 0
      then (True, dev\<lparr>irqs_pending := irqs_pending dev OR irqVec\<rparr>,
            [RegWritel (CSR_PCIE_MSI_CLEAR_ADDR csr) irqVec, InterruptQueueDpcForIsr])
      else (False, dev, []))"

text \<open>
  The body of the \<open>for\<close> loop of \<open>litepcie_EvtDpc\<close> for one channel: the reader
  interrupt, then the writer interrupt. \<open>1 << n\<close> is a 32-bit shift (undefined in C from
  32 on, 0 here).
\<close>

definition dpc_reader ::
  "dma_config \<Rightarrow> csr_map \<Rightarrow> wdf \<Rightarrow> (UINT32 \<Rightarrow> UINT32) \<Rightarrow> UINT32 \<Rightarrow>
   litepcie_chan \<times> UINT32 \<times> event list \<Rightarrow> litepcie_chan \<times> UINT32 \<times> event list" where
  "dpc_reader cfg csr fw regs irq_vector = (\<lambda>(pChan, clear_mask, evs).
     if irq_vector AND push_bit (unat (reader_interrupt (dma pChan))) 1 \<noteq> 0 then
       let loop_status = regs (base (dma pChan) + PCIE_DMA_READER_TABLE_LOOP_STATUS_OFFSET csr);
           counts = reconcile cfg loop_status
                      (reader_hw_count (dma pChan), reader_hw_count_last (dma pChan));
           pChan1 = pChan\<lparr>dma := (dma pChan)\<lparr>reader_hw_count := fst counts,
                       reader_hw_count_last := snd counts\<rparr>\<rparr>;
           evs1 = evs @ [SpinLockAcquire (index pChan) Reader, CounterAccess (index pChan) Reader Reconcile,
                         SpinLockRelease (index pChan) Reader];
           served = (case writeRequest (dma pChan1) of
                     None \<Rightarrow> (pChan1, [])
                   | Some request \<Rightarrow>
                       litepciedrv_ChannelWrite cfg fw pChan1 request (writeRemainingBytes (dma pChan1)))
       in (fst served, clear_mask OR push_bit (unat (reader_interrupt (dma pChan))) 1,
           evs1 @ snd served)
     else (pChan, clear_mask, evs))"

definition dpc_writer ::
  "dma_config \<Rightarrow> csr_map \<Rightarrow> wdf \<Rightarrow> (UINT32 \<Rightarrow> UINT32) \<Rightarrow> UINT32 \<Rightarrow>
   litepcie_chan \<times> UINT32 \<times> event list \<Rightarrow> litepcie_chan \<times> UINT32 \<times> event list" where
  "dpc_writer cfg csr fw regs irq_vector = (\<lambda>(pChan, clear_mask, evs).
     if irq_vector AND push_bit (unat (writer_interrupt (dma pChan))) 1 \<noteq> 0 then
       let loop_status = regs (base (dma pChan) + PCIE_DMA_WRITER_TABLE_LOOP_STATUS_OFFSET csr);
           counts = reconcile cfg loop_status
                      (writer_hw_count (dma pChan), writer_hw_count_last (dma pChan));
           pChan1 = pChan\<lparr>dma := (dma pChan)\<lparr>writer_hw_count := fst counts,
                       writer_hw_count_last := snd counts\<rparr>\<rparr>;
           evs1 = evs @ [SpinLockAcquire (index pChan) Writer, CounterAccess (index pChan) Writer Reconcile,
                         SpinLockRelease (index pChan) Writer];
           served = (case readRequest (dma pChan1) of
                     None \<Rightarrow> (pChan1, [])
                   | Some request \<Rightarrow>
                       litepciedrv_ChannelRead cfg fw pChan1 request (readRemainingBytes (dma pChan1)))
       in (fst served, clear_mask OR push_bit (unat (writer_interrupt (dma pChan))) 1,
           evs1 @ snd served)
     else (pChan, clear_mask, evs))"

fun dpc_loop ::
  "dma_config \<Rightarrow> csr_map \<Rightarrow> wdf \<Rightarrow> (UINT32 \<Rightarrow> UINT32) \<Rightarrow> UINT32 \<Rightarrow>
   litepcie_chan list \<Rightarrow> UINT32 \<Rightarrow> event list \<Rightarrow> litepcie_chan list \<times> UINT32 \<times> event list" where
  "dpc_loop cfg csr fw regs irq_vector [] clear_mask evs = ([], clear_mask, evs)"
| "dpc_loop cfg csr fw regs irq_vector (pChan # rest) clear_mask evs =
     (case dpc_writer cfg csr fw regs irq_vector
             (dpc_reader cfg csr fw regs irq_vector (pChan, clear_mask, evs)) of
        (pChan', clear_mask', evs') \<Rightarrow>
          (case dpc_loop cfg csr fw regs irq_vector rest clear_mask' evs' of
             (rest', clear_mask'', evs'') \<Rightarrow> (pChan' # rest', clear_mask'', evs'')))"

definition litepcie_EvtDpc ::
  "dma_config \<Rightarrow> csr_map \<Rightarrow> wdf \<Rightarrow> (UINT32 \<Rightarrow> UINT32) \<Rightarrow> device \<Rightarrow> device \<times> event list" where
  "litepcie_EvtDpc cfg csr fw regs dev =
     (let irq_enable = regs (CSR_PCIE_MSI_ENABLE_ADDR csr);
          irq_vector = irqs_pending dev AND irq_enable
      in case dpc_loop cfg csr fw regs irq_vector (chan dev) 0 [] of
           (chans, clear_mask, evs) \<Rightarrow>
             (dev\<lparr>chan := chans, irqs_pending := irqs_pending dev AND NOT clear_mask\<rparr>, evs))"

section \<open>Properties: definitions\<close>

text \<open>
  A counter value that is not negative and below \<open>2^62\<close>: from such a value one
  reconciliation cannot overflow the signed 64-bit counter.
\<close>

definition count_ok :: "INT64 \<Rightarrow> bool" where
  "count_ok x = (0 \<le>s x \<and> x <s 0x4000000000000000)"

text \<open>The order of two counter pairs by their \<open>hw_count\<close>, read as signed.\<close>

definition hw_le :: "INT64 \<times> INT64 \<Rightarrow> INT64 \<times> INT64 \<Rightarrow> bool" where
  "hw_le a b = (fst a \<le>s fst b)"

text \<open>
  A configuration for the scenarios: ring depth, buffer size and coalescing interval are
  chosen by the scenario, the two descriptor flags are bits 24 and 25.
\<close>

definition ring_config :: "32 word \<Rightarrow> 32 word \<Rightarrow> 32 word \<Rightarrow> dma_config" where
  "ring_config buffer_count buffer_size per_irq =
     \<lparr>DMA_BUFFER_COUNT = buffer_count, DMA_BUFFER_SIZE = buffer_size,
      DMA_BUFFER_PER_IRQ = per_irq, DMA_IRQ_DISABLE = 0x1000000,
      DMA_LAST_DISABLE = 0x2000000, DMA_BUFFER_ALIGNED = False\<rparr>"

text \<open>The requests completed by a list of events, with status and byte count.\<close>

fun completions :: "event list \<Rightarrow> (WDFREQUEST \<times> NTSTATUS \<times> SIZE_T) list" where
  "completions [] = []"
| "completions (RequestCompleteWithInformation request status info # evs) =
     (request, status, info) # completions evs"
| "completions (e # evs) = completions evs"

text \<open>
  The bytes a list of events transfers: every buffer copy moves \<open>DMA_BUFFER_SIZE\<close> bytes
  (the constant as \<open>SIZE_T\<close>, as the copy calls take it).
\<close>

fun is_copy :: "event \<Rightarrow> bool" where
  "is_copy (MemoryCopy d offset slot) = True"
| "is_copy e = False"

definition bytes_transferred :: "dma_config \<Rightarrow> event list \<Rightarrow> nat" where
  "bytes_transferred cfg evs =
     length (filter is_copy evs) * unat (scast (DMA_BUFFER_SIZE cfg) :: SIZE_T)"

text \<open>
  Lock discipline on a list of events. \<open>lock_step\<close> keeps the list of locks held.
  \<open>accesses_held P want\<close> holds when, at every counter access of a kind in \<open>P\<close>, the
  lock of the access's channel and direction is held (\<open>want = True\<close>) or is not held
  (\<open>want = False\<close>); \<open>copies_unlocked\<close> holds when every buffer copy happens while no
  lock is held.
\<close>

fun lock_step :: "(UINT32 \<times> direction) list \<Rightarrow> event \<Rightarrow> (UINT32 \<times> direction) list" where
  "lock_step held (SpinLockAcquire ix d) = (ix, d) # held"
| "lock_step held (SpinLockRelease ix d) = removeAll (ix, d) held"
| "lock_step held e = held"

fun access_ok ::
  "(counter_access \<Rightarrow> bool) \<Rightarrow> bool \<Rightarrow> (UINT32 \<times> direction) list \<Rightarrow> event \<Rightarrow> bool" where
  "access_ok P want held (CounterAccess ix d a) = (\<not> P a \<or> ((ix, d) \<in> set held) = want)"
| "access_ok P want held e = True"

fun accesses_held ::
  "(counter_access \<Rightarrow> bool) \<Rightarrow> bool \<Rightarrow> (UINT32 \<times> direction) list \<Rightarrow> event list \<Rightarrow> bool" where
  "accesses_held P want held [] = True"
| "accesses_held P want held (e # evs) =
     (access_ok P want held e \<and> accesses_held P want (lock_step held e) evs)"

fun copies_unlocked :: "(UINT32 \<times> direction) list \<Rightarrow> event list \<Rightarrow> bool" where
  "copies_unlocked held [] = True"
| "copies_unlocked held (e # evs) =
     ((\<not> is_copy e \<or> held = []) \<and> copies_unlocked (lock_step held e) evs)"

text \<open>
  The kinds of counter access that the source brackets with the lock: the computation
  of \<open>available_count\<close> and the reconciliation in the DPC.
\<close>

fun bracketed :: "counter_access \<Rightarrow> bool" where
  "bracketed Available = True"
| "bracketed Reconcile = True"
| "bracketed a = False"

text \<open>
  \<open>all_accesses_locked\<close> is the discipline in which every counter access is made under
  the lock and no copy is. \<open>lock_discipline\<close> is the one the source follows: the
  bracketed accesses are made under the lock, all other accesses and all copies are
  made without it, and no lock is held at the end.
\<close>

definition all_accesses_locked :: "event list \<Rightarrow> bool" where
  "all_accesses_locked evs =
     (accesses_held (\<lambda>a. True) True [] evs \<and> copies_unlocked [] evs)"

definition lock_discipline :: "event list \<Rightarrow> bool" where
  "lock_discipline evs =
     (accesses_held bracketed True [] evs \<and>
      accesses_held (\<lambda>a. \<not> bracketed a) False [] evs \<and>
      copies_unlocked [] evs \<and>
      foldl lock_step [] evs = [])"

text \<open>The buffer copies of a list of events: direction, request offset and ring slot.\<close>

fun copies :: "event list \<Rightarrow> (direction \<times> SIZE_T \<times> int) list" where
  "copies [] = []"
| "copies (MemoryCopy d offset slot # evs) = (d, offset, slot) # copies evs"
| "copies (e # evs) = copies evs"

text \<open>
  The counter invariant of a channel, \<open>sw_count \<le> hw_count\<close> in both directions, and two
  side conditions: \<open>hw_count_last\<close> equals \<open>hw_count\<close> (as after start, stop and every
  reconciliation), and both hardware counts are in the range \<open>count_ok\<close>.
\<close>

definition sw_le_hw :: "litepcie_chan \<Rightarrow> bool" where
  "sw_le_hw c = (reader_sw_count (dma c) \<le>s reader_hw_count (dma c) \<and>
                 writer_sw_count (dma c) \<le>s writer_hw_count (dma c))"

definition last_synced :: "litepcie_chan \<Rightarrow> bool" where
  "last_synced c = (reader_hw_count_last (dma c) = reader_hw_count (dma c) \<and>
                    writer_hw_count_last (dma c) = writer_hw_count (dma c))"

definition hw_in_range :: "litepcie_chan \<Rightarrow> bool" where
  "hw_in_range c = (count_ok (reader_hw_count (dma c)) \<and> count_ok (writer_hw_count (dma c)))"

text \<open>
  Scenario data. \<open>cleared_dma_chan\<close> is the channel state after the \<open>memset\<close> of
  \<open>litepciedrv_DeviceOpen\<close>; \<open>scenario_chan\<close> is channel 0 with the writer interrupt on
  bit 0 and the reader interrupt on bit 1 and two ring slots with distinct physical
  addresses per direction; \<open>scenario_csr\<close> is a register map with distinct addresses.
  \<open>fw_ok\<close> retrieves every request's memory, \<open>fw_fail\<close> answers
  \<open>STATUS_BUFFER_TOO_SMALL\<close> (\<open>0xC0000023\<close>); \<open>fw_output_only\<close> retrieves the output
  memory of a request and fails for its input memory, \<open>fw_input_only\<close> is the converse.
\<close>

definition cleared_dma_chan :: litepcie_dma_chan where
  "cleared_dma_chan =
     \<lparr>base = 0, writer_interrupt = 0, reader_interrupt = 0, reader_addr = [], writer_addr = [],
      reader_hw_count = 0, reader_hw_count_last = 0, reader_sw_count = 0,
      writer_hw_count = 0, writer_hw_count_last = 0, writer_sw_count = 0,
      readRequest = None, readRemainingBytes = 0,
      writeRequest = None, writeRemainingBytes = 0\<rparr>"

definition scenario_chan :: "UINT32 \<Rightarrow> litepcie_chan" where
  "scenario_chan buffer_size =
     \<lparr>index = 0, block_size = buffer_size,
      dma = cleared_dma_chan\<lparr>base := 0x2000, writer_interrupt := 0, reader_interrupt := 1,
              reader_addr := [0x10000000, 0x10002000],
              writer_addr := [0x20000000, 0x20002000]\<rparr>\<rparr>"

definition scenario_csr :: csr_map where
  "scenario_csr =
     \<lparr>PCIE_DMA_WRITER_ENABLE_OFFSET = 0x00,
      PCIE_DMA_WRITER_TABLE_FLUSH_OFFSET = 0x1c,
      PCIE_DMA_WRITER_TABLE_LOOP_PROG_N_OFFSET = 0x10,
      PCIE_DMA_WRITER_TABLE_VALUE_OFFSET = 0x04,
      PCIE_DMA_WRITER_TABLE_WE_OFFSET = 0x0c,
      PCIE_DMA_WRITER_TABLE_LOOP_STATUS_OFFSET = 0x14,
      PCIE_DMA_READER_ENABLE_OFFSET = 0x20,
      PCIE_DMA_READER_TABLE_FLUSH_OFFSET = 0x3c,
      PCIE_DMA_READER_TABLE_LOOP_PROG_N_OFFSET = 0x30,
      PCIE_DMA_READER_TABLE_VALUE_OFFSET = 0x24,
      PCIE_DMA_READER_TABLE_WE_OFFSET = 0x2c,
      PCIE_DMA_READER_TABLE_LOOP_STATUS_OFFSET = 0x34,
      CSR_PCIE_MSI_ENABLE_ADDR = 0x1800,
      CSR_PCIE_MSI_CLEAR_ADDR = 0x1804,
      CSR_PCIE_MSI_VECTOR_ADDR = 0x1808\<rparr>"

definition fw_ok :: wdf where
  "fw_ok = \<lparr>RetrieveOutputMemory = (\<lambda>request. STATUS_SUCCESS),
            RetrieveInputMemory = (\<lambda>request. STATUS_SUCCESS)\<rparr>"

definition fw_fail :: wdf where
  "fw_fail = \<lparr>RetrieveOutputMemory = (\<lambda>request. 0xC0000023),
              RetrieveInputMemory = (\<lambda>request. 0xC0000023)\<rparr>"

definition fw_output_only :: wdf where
  "fw_output_only = \<lparr>RetrieveOutputMemory = (\<lambda>request. STATUS_SUCCESS),
                     RetrieveInputMemory = (\<lambda>request. 0xC0000023)\<rparr>"

definition fw_input_only :: wdf where
  "fw_input_only = \<lparr>RetrieveOutputMemory = (\<lambda>request. 0xC0000023),
                    RetrieveInputMemory = (\<lambda>request. STATUS_SUCCESS)\<rparr>"

text \<open>
  What one pass of the DPC loop body makes of a channel (the clear mask and the events
  do not influence the channel).
\<close>

definition dpc_chan ::
  "dma_config \<Rightarrow> csr_map \<Rightarrow> wdf \<Rightarrow> (UINT32 \<Rightarrow> UINT32) \<Rightarrow> UINT32 \<Rightarrow> litepcie_chan \<Rightarrow> litepcie_chan" where
  "dpc_chan cfg csr fw regs irq_vector pChan =
     fst (dpc_writer cfg csr fw regs irq_vector
            (dpc_reader cfg csr fw regs irq_vector (pChan, 0, [])))"

text \<open>
  The parked requests of a channel (read side, write side). \<open>resolved_or_kept\<close> relates
  the pending-request field of one direction before and after an operation with the
  events of that operation: the field is unchanged, or it has been emptied and the
  request it held was completed among the events with \<open>STATUS_SUCCESS\<close> and a positive
  byte count. \<open>parked_resolved\<close> is that relation for both directions of a channel.
\<close>

definition parked :: "litepcie_chan \<Rightarrow> WDFREQUEST option \<times> WDFREQUEST option" where
  "parked c = (readRequest (dma c), writeRequest (dma c))"

definition resolved_or_kept :: "WDFREQUEST option \<Rightarrow> WDFREQUEST option \<Rightarrow> event list \<Rightarrow> bool" where
  "resolved_or_kept before after evs =
     (after = before \<or>
      (after = None \<and>
       (case before of
          None \<Rightarrow> False
        | Some r \<Rightarrow>
            list_ex (\<lambda>(request, status, info). request = r \<and> status = STATUS_SUCCESS \<and> 0 < info)
              (completions evs))))"

definition parked_resolved :: "litepcie_chan \<Rightarrow> litepcie_chan \<Rightarrow> event list \<Rightarrow> bool" where
  "parked_resolved c c' evs =
     (resolved_or_kept (readRequest (dma c)) (readRequest (dma c')) evs \<and>
      resolved_or_kept (writeRequest (dma c)) (writeRequest (dma c')) evs)"

text \<open>
  More scenario data: a channel with read request 1 parked, a device with one channel
  and both interrupts requested, and register contents (the MSI enable register reads
  3; the MSI vector and the two loop status registers of the channel are given).
\<close>

definition parked_chan :: litepcie_chan where
  "parked_chan = (scenario_chan 4096)\<lparr>dma := (dma (scenario_chan 4096))\<lparr>readRequest := Some 1,
      readRemainingBytes := 4096\<rparr>\<rparr>"

definition scenario_dev :: "litepcie_chan \<Rightarrow> UINT32 \<Rightarrow> device" where
  "scenario_dev c pending = \<lparr>chan = [c], irqs_requested = 3, irqs_pending = pending\<rparr>"

definition scenario_regs :: "UINT32 \<Rightarrow> UINT32 \<Rightarrow> UINT32 \<Rightarrow> UINT32 \<Rightarrow> UINT32" where
  "scenario_regs vector reader_status writer_status reg =
     (if reg = 0x1800 then 3
      else if reg = 0x1808 then vector
      else if reg = 0x2034 then reader_status
      else if reg = 0x2014 then writer_status
      else 0)"

section \<open>Signed and unsigned readings of 64-bit words\<close>

lemma sint_of_small:
  fixes x :: INT64
  assumes "x < 2 ^ 63"
  shows "sint x = uint x"
proof -
  have "uint x < 2 ^ 63" using assms by (simp add: word_less_def)
  moreover have "- (2 ^ 63) \<le> uint x"
    by (rule order_trans [of _ 0]) simp_all
  ultimately have "signed_take_bit 63 (uint x) = uint x"
    by (intro signed_take_bit_int_eq_self) simp_all
  then show ?thesis by (simp add: sint_uint)
qed

lemma small_of_sint:
  fixes x :: INT64
  assumes "0 \<le> sint x"
  shows "x < 2 ^ 63"
proof (rule ccontr)
  assume "\<not> x < 2 ^ 63"
  then have "2 ^ 63 \<le> uint x" by (simp add: word_less_def)
  then have "signed_take_bit 63 (uint x) \<le> uint x - 2 ^ Suc 63"
    by (rule signed_take_bit_int_less_eq)
  then have a: "signed_take_bit 63 (uint x) \<le> uint x - 18446744073709551616" by simp
  have b: "uint x < 18446744073709551616" using uint_lt2p [of x] by simp
  have c: "sint x = signed_take_bit 63 (uint x)" by (simp add: sint_uint)
  from a b c have "sint x < 0" by linarith
  with assms show False by simp
qed

lemma and_not_mask_diff:
  fixes h :: INT64
  shows "h AND NOT (mask m) = h - (h AND mask m)"
proof -
  have "h - (h AND mask m) = h AND NOT (h AND mask m)"
    by (rule disjunctive_diff) (simp add: bit_simps)
  also have "\<dots> = h AND NOT (mask m)"
    by (rule bit_eqI) (auto simp add: bit_simps)
  finally show ?thesis by simp
qed

lemma unat_and_not_mask:
  fixes h :: INT64
  shows "unat (h AND NOT (mask m)) = unat h - unat (h AND mask m)"
  unfolding and_not_mask_diff
  by (rule unat_sub) (rule word_and_le2)

lemma unat_and_mask_less:
  fixes h :: INT64
  shows "unat (h AND mask m) < 2 ^ m"
proof -
  have "unat (h AND mask m) = take_bit m (unat h)"
    by (simp add: unsigned_take_bit_eq flip: take_bit_eq_mask)
  then show ?thesis by simp
qed

lemma unat_2p64:
  assumes "m < 64"
  shows "unat (2 ^ m :: INT64) = 2 ^ m"
proof -
  have "(2::nat) ^ m < 2 ^ 64" using assms by (intro power_strict_increasing) simp_all
  then have "take_bit 64 ((2::nat) ^ m) = 2 ^ m" by (rule take_bit_nat_eq_self)
  moreover have "unat (2 ^ m :: INT64) = take_bit 64 (push_bit m (1::nat))"
    using unsigned_push_bit_eq [of m "1 :: INT64", where 'a = nat] by (simp add: push_bit_eq_mult)
  ultimately show ?thesis by (simp add: push_bit_eq_mult)
qed

lemma or_less_2p62:
  fixes a b :: INT64
  assumes "a < 2 ^ 62" "b < 2 ^ 62"
  shows "a OR b < 2 ^ 62"
proof -
  have "a AND mask 62 = a" "b AND mask 62 = b"
    using assms by (simp_all add: less_mask_eq)
  then have "(a OR b) AND mask 62 = a OR b"
    by (simp add: bit.conj_disj_distrib2)
  moreover have "(a OR b) AND mask 62 < 2 ^ 62"
    by (rule and_mask_less') simp
  ultimately show ?thesis by simp
qed

lemma ucast32_less:
  fixes l :: "32 word"
  shows "(ucast l :: INT64) < 2 ^ 62"
proof -
  have "unat l < 2 ^ 32" using unsigned_less [of l, where 'a = nat] by simp
  moreover have "unat (ucast l :: INT64) \<le> unat l"
    by (simp add: unsigned_ucast_eq)
  ultimately have "unat (ucast l :: INT64) < 2 ^ 62" by simp
  then show ?thesis by (simp add: word_less_nat_alt)
qed

lemma count_ok_iff: "count_ok x \<longleftrightarrow> x < 2 ^ 62"
proof
  assume ok: "count_ok x"
  then have "0 \<le> sint x" by (simp add: count_ok_def word_sle_eq)
  then have "sint x = uint x" using small_of_sint sint_of_small by blast
  moreover have "sint x < 2 ^ 62" using ok by (simp add: count_ok_def word_sless_alt)
  ultimately show "x < 2 ^ 62" by (simp add: word_less_def)
next
  assume lt: "x < 2 ^ 62"
  then have u: "uint x < 2 ^ 62" by (simp add: word_less_def)
  have "x < 2 ^ 63" using lt by (simp add: word_less_def)
  then have "sint x = uint x" by (rule sint_of_small)
  with u show "count_ok x" by (simp add: count_ok_def word_sle_eq word_sless_alt)
qed

lemma k16: "k < 16 \<Longrightarrow> k = 0 \<or> k = 1 \<or> k = 2 \<or> k = 3 \<or> k = 4 \<or> k = 5 \<or> k = 6 \<or> k = 7 \<or> k = 8 \<or> k = 9 \<or> k = 10 \<or> k = 11 \<or> k = 12 \<or> k = 13 \<or> k = 14 \<or> k = (15::nat)"
  by arith

lemma leftmost_bit_pow2:
  assumes "k < 16" shows "leftmost_bit (2 ^ k) = of_nat k"
proof -
  from k16 [OF assms] show ?thesis
    by (elim disjE) (simp_all add: leftmost_bit_def leftmost_bit_loop.simps)
qed

lemma hw_count_mask_pow2:
  assumes "DMA_BUFFER_COUNT cfg = 2 ^ k" "k < 16"
  shows "hw_count_mask cfg = NOT (mask (k + 16))"
proof -
  from k16 [OF assms(2)] show ?thesis
    by (elim disjE) (simp_all add: hw_count_mask_def assms(1) mask_eq_exp_minus_1)
qed

lemma wrap_increment_pow2:
  assumes "DMA_BUFFER_COUNT cfg = 2 ^ k" "k < 16"
  shows "wrap_increment cfg = 2 ^ (k + 16)"
proof -
  from k16 [OF assms(2)] show ?thesis
    by (elim disjE) (simp_all add: wrap_increment_def assms(1) leftmost_bit_def leftmost_bit_loop.simps)
qed

section \<open>Reconciliation keeps the hardware count ordered\<close>

lemma reconcile_step:
  assumes pow2: "DMA_BUFFER_COUNT cfg = 2 ^ k" and k: "k < 16"
    and ok: "hw < 2 ^ 62"
  shows "hw \<le> fst (reconcile cfg loop_status (hw, hw))"
    and "fst (reconcile cfg loop_status (hw, hw)) < 2 ^ 63"
    and "snd (reconcile cfg loop_status (hw, hw)) = fst (reconcile cfg loop_status (hw, hw))"
proof -
  define m where "m = k + 16"
  define A where "A = hw AND NOT (mask m)"
  define B where "B = A OR ucast (loop_count cfg loop_status)"
  have m: "m < 32" using k by (simp add: m_def)
  have rec: "reconcile cfg loop_status (hw, hw) =
      (if B <s hw then (B + 2 ^ m, B + 2 ^ m) else (B, B))"
    by (simp add: reconcile_def hw_count_mask_pow2 [OF pow2 k] wrap_increment_pow2 [OF pow2 k]
        A_def B_def m_def Let_def)
  have "A \<le> hw" unfolding A_def by (rule word_and_le2)
  then have A62: "A < 2 ^ 62" using ok by simp
  have B62: "B < 2 ^ 62" unfolding B_def by (rule or_less_2p62 [OF A62 ucast32_less])
  have AB: "A \<le> B" unfolding B_def by (rule le_word_or2)
  have uB: "unat B < 2 ^ 62" using B62 by (simp add: word_less_nat_alt)
  have uh: "unat hw < 2 ^ 62" using ok by (simp add: word_less_nat_alt)
  have B63: "B < 2 ^ 63" using uB by (simp add: word_less_nat_alt)
  have h63: "hw < 2 ^ 63" using uh by (simp add: word_less_nat_alt)
  have sless: "B <s hw \<longleftrightarrow> unat B < unat hw"
    by (simp add: word_sless_alt sint_of_small [OF B63] sint_of_small [OF h63] word_less_nat_alt
        flip: word_less_def)
  have p: "(2::nat) ^ m \<le> 2 ^ 31" using m by (intro power_increasing) simp_all
  have um: "unat (2 ^ m :: INT64) = 2 ^ m" using m by (intro unat_2p64) simp
  have "unat B + unat (2 ^ m :: INT64) < 2 ^ 64" using uB p um by simp
  then have sum: "unat (B + 2 ^ m) = unat B + 2 ^ m"
    using unat_add_lem [of B "2 ^ m"] um by simp
  have low: "unat (hw AND mask m) < 2 ^ m" by (rule unat_and_mask_less)
  have uA: "unat A = unat hw - unat (hw AND mask m)" unfolding A_def by (rule unat_and_not_mask)
  have uAB: "unat A \<le> unat B" using AB by (simp add: word_le_nat_alt)
  have gt: "unat hw < unat (B + 2 ^ m)" using sum low uA uAB by linarith
  have lt: "unat (B + 2 ^ m) < 2 ^ 63" using sum uB p by simp
  show "hw \<le> fst (reconcile cfg loop_status (hw, hw))"
    using gt sless by (simp add: rec word_le_nat_alt)
  show "fst (reconcile cfg loop_status (hw, hw)) < 2 ^ 63"
    using lt uB by (simp add: rec word_less_nat_alt)
  show "snd (reconcile cfg loop_status (hw, hw)) = fst (reconcile cfg loop_status (hw, hw))"
    by (simp add: rec)
qed


lemma reconcile_diag: "snd (reconcile cfg loop_status s) = fst (reconcile cfg loop_status s)"
  by (cases s) (simp add: reconcile_def Let_def)

lemma reconcile_step_signed:
  assumes pow2: "DMA_BUFFER_COUNT cfg = 2 ^ k" and k: "k < 16"
    and ok: "count_ok hw"
  shows "hw \<le>s fst (reconcile cfg loop_status (hw, hw))"
proof -
  have lt: "hw < 2 ^ 62" using ok by (simp add: count_ok_iff)
  then have "unat hw < 2 ^ 62" by (simp add: word_less_nat_alt)
  then have h63: "hw < 2 ^ 63" by (simp add: word_less_nat_alt)
  note st = reconcile_step [OF pow2 k lt, of loop_status]
  show ?thesis
    using st(1) by (simp add: word_sle_eq sint_of_small [OF h63] sint_of_small [OF st(2)] word_le_def)
qed

lemma reconcile_seq_sorted_from:
  assumes pow2: "DMA_BUFFER_COUNT cfg = 2 ^ k" and k: "k < 16"
  shows "count_ok hw \<Longrightarrow> list_all (\<lambda>s. count_ok (fst s)) (reconcile_seq cfg raws (hw, hw)) \<Longrightarrow>
    sorted_wrt hw_le ((hw, hw) # reconcile_seq cfg raws (hw, hw))"
proof (induction raws arbitrary: hw)
  case Nil
  then show ?case by simp
next
  case (Cons r rest)
  define t where "t = reconcile cfg r (hw, hw)"
  have t_eq: "t = (fst t, fst t)"
    using reconcile_diag [of cfg r "(hw, hw)"] by (simp add: t_def prod_eq_iff)
  have ok_t: "count_ok (fst t)" and ok_rest: "list_all (\<lambda>s. count_ok (fst s)) (reconcile_seq cfg rest t)"
    using Cons.prems(2) by (simp_all add: t_def)
  have step: "hw \<le>s fst t"
    unfolding t_def by (rule reconcile_step_signed [OF pow2 k Cons.prems(1)])
  have "sorted_wrt hw_le ((fst t, fst t) # reconcile_seq cfg rest (fst t, fst t))"
    using Cons.IH [of "fst t"] ok_t ok_rest t_eq by simp
  then have sorted_t: "sorted_wrt hw_le (t # reconcile_seq cfg rest t)"
    using t_eq by simp
  have "hw_le (hw, hw) y" if "y \<in> set (t # reconcile_seq cfg rest t)" for y
  proof (cases "y = t")
    case True
    then show ?thesis using step by (simp add: hw_le_def)
  next
    case False
    with that sorted_t have "hw_le t y" by auto
    with step show ?thesis by (simp add: hw_le_def word_sle_eq)
  qed
  with sorted_t show ?case by (simp add: t_def)
qed

text \<open>
  C1. Monotonicity of reconciliation. The ring depth is a power of two, \<open>2^k\<close> with
  \<open>k < 16\<close> (beyond that the 32-bit shifts of the source lose the mask and the wrap
  increment). For every start state and every sequence of raw loop status values, as
  long as the reconciled counts stay in the range where the signed 64-bit counter
  cannot overflow, the sequence of reconciled \<open>hw_count\<close> values is non-decreasing; and
  when the start state has \<open>hw_count_last = hw_count\<close> (as after start, stop and every
  reconciliation), the first reconciled value is not below the starting \<open>hw_count\<close>
  either. The raw values are arbitrary 32-bit values, so sequences that wrap are
  included.
\<close>

theorem reconcile_hw_count_monotone:
  assumes pow2: "DMA_BUFFER_COUNT cfg = 2 ^ k" and k: "k < 16"
    and range: "list_all (\<lambda>s. count_ok (fst s)) (reconcile_seq cfg raws s)"
  shows "sorted_wrt hw_le (reconcile_seq cfg raws s) \<and>
    (snd s = fst s \<and> count_ok (fst s) \<longrightarrow> sorted_wrt hw_le (s # reconcile_seq cfg raws s))"
proof
  show "sorted_wrt hw_le (reconcile_seq cfg raws s)"
  proof (cases raws)
    case Nil
    then show ?thesis by simp
  next
    case (Cons r rest)
    define t where "t = reconcile cfg r s"
    have t_eq: "t = (fst t, fst t)"
      using reconcile_diag [of cfg r s] by (simp add: t_def prod_eq_iff)
    have "count_ok (fst t)" "list_all (\<lambda>s. count_ok (fst s)) (reconcile_seq cfg rest t)"
      using range Cons by (simp_all add: t_def)
    then have "sorted_wrt hw_le ((fst t, fst t) # reconcile_seq cfg rest (fst t, fst t))"
      using reconcile_seq_sorted_from [OF pow2 k, of "fst t" rest] t_eq by simp
    then show ?thesis using t_eq Cons by (simp add: t_def)
  qed
  show "snd s = fst s \<and> count_ok (fst s) \<longrightarrow> sorted_wrt hw_le (s # reconcile_seq cfg raws s)"
  proof
    assume a: "snd s = fst s \<and> count_ok (fst s)"
    then have "s = (fst s, fst s)" by (simp add: prod_eq_iff)
    then show "sorted_wrt hw_le (s # reconcile_seq cfg raws s)"
      using reconcile_seq_sorted_from [OF pow2 k, of "fst s" raws] a range by simp
  qed
qed

theorem reconcile_hw_count_monotone_witness:
  "sorted_wrt hw_le (reconcile_seq (ring_config 1024 8192 8) [0x00020005, 0x0000000A, 0x00010000] (0, 0)) \<and>
   sorted_wrt hw_le ((0, 0) # reconcile_seq (ring_config 1024 8192 8) [0x00020005, 0x0000000A, 0x00010000] (0, 0)) \<and>
   map fst (reconcile_seq (ring_config 1024 8192 8) [0x00020005, 0x0000000A, 0x00010000] (0, 0)) =
     [2053, 67108874, 67109888]"
proof -
  have lb: "leftmost_bit 1024 = 10"
    by (simp add: leftmost_bit_def leftmost_bit_loop.simps)
  have seq: "reconcile_seq (ring_config 1024 8192 8) [0x00020005, 0x0000000A, 0x00010000] (0, 0) =
      [(2053, 2053), (67108874, 67108874), (67109888, 67109888)]"
    by (simp add: reconcile_def ring_config_def hw_count_mask_def loop_count_def
        wrap_increment_def lb word_sless_alt)
  have pow2: "DMA_BUFFER_COUNT (ring_config 1024 8192 8) = 2 ^ 10"
    by (simp add: ring_config_def)
  have range: "list_all (\<lambda>s. count_ok (fst s))
      (reconcile_seq (ring_config 1024 8192 8) [0x00020005, 0x0000000A, 0x00010000] (0, 0))"
    unfolding seq by (simp add: count_ok_def word_sle_eq word_sless_alt)
  have start: "snd (0 :: INT64, 0 :: INT64) = fst (0 :: INT64, 0 :: INT64) \<and>
      count_ok (fst (0 :: INT64, 0 :: INT64))"
    by (simp add: count_ok_def word_sle_eq word_sless_alt)
  have "sorted_wrt hw_le
      (reconcile_seq (ring_config 1024 8192 8) [0x00020005, 0x0000000A, 0x00010000] (0, 0)) \<and>
    (snd (0 :: INT64, 0 :: INT64) = fst (0 :: INT64, 0 :: INT64) \<and>
     count_ok (fst (0 :: INT64, 0 :: INT64)) \<longrightarrow>
     sorted_wrt hw_le ((0, 0) #
       reconcile_seq (ring_config 1024 8192 8) [0x00020005, 0x0000000A, 0x00010000] (0, 0)))"
    by (rule reconcile_hw_count_monotone [OF pow2 _ range]) simp
  with start have "sorted_wrt hw_le
      (reconcile_seq (ring_config 1024 8192 8) [0x00020005, 0x0000000A, 0x00010000] (0, 0)) \<and>
     sorted_wrt hw_le ((0, 0) #
       reconcile_seq (ring_config 1024 8192 8) [0x00020005, 0x0000000A, 0x00010000] (0, 0))"
    by blast
  moreover have "map fst
      (reconcile_seq (ring_config 1024 8192 8) [0x00020005, 0x0000000A, 0x00010000] (0, 0)) =
     [2053, 67108874, 67109888]"
    unfolding seq by simp
  ultimately show ?thesis by blast
qed

text \<open>
  C2. The round-trip example, as the claim states it, does not hold: with a ring depth
  of 1024 and counters at zero, the second reconciled \<open>hw_count\<close> is not
  \<open>2 * 1024 + 5\<close> plus the wrap increment plus 10.
\<close>

theorem reconcile_round_trip_counterexample:
  "fst (reconcile (ring_config 1024 8192 8) 0x0000000A
          (reconcile (ring_config 1024 8192 8) 0x00020005 (0, 0)))
   \<noteq> 2 * 1024 + 5 + wrap_increment (ring_config 1024 8192 8) + 10"
proof -
  have lb: "leftmost_bit 1024 = 10"
    by (simp add: leftmost_bit_def leftmost_bit_loop.simps)
  show ?thesis
    by (simp add: reconcile_def ring_config_def hw_count_mask_def loop_count_def
        wrap_increment_def lb word_sless_alt)
qed

text \<open>
  C2, amended. The mask drops the previous in-loop count before the new one is OR-ed
  in: the first reconciled value is \<open>2 * 1024 + 5 = 2053\<close>, the second one is the wrap
  increment \<open>2^26\<close> plus 10, which exceeds the first.
\<close>

theorem reconcile_round_trip:
  "fst (reconcile (ring_config 1024 buffer_size per_irq) 0x00020005 (0, 0)) = 2 * 1024 + 5 \<and>
   wrap_increment (ring_config 1024 buffer_size per_irq) = 2 ^ 26 \<and>
   fst (reconcile (ring_config 1024 buffer_size per_irq) 0x0000000A
          (reconcile (ring_config 1024 buffer_size per_irq) 0x00020005 (0, 0)))
     = wrap_increment (ring_config 1024 buffer_size per_irq) + 10 \<and>
   fst (reconcile (ring_config 1024 buffer_size per_irq) 0x00020005 (0, 0))
     <s fst (reconcile (ring_config 1024 buffer_size per_irq) 0x0000000A
          (reconcile (ring_config 1024 buffer_size per_irq) 0x00020005 (0, 0)))"
proof -
  have lb: "leftmost_bit 1024 = 10"
    by (simp add: leftmost_bit_def leftmost_bit_loop.simps)
  show ?thesis
    by (simp add: reconcile_def ring_config_def hw_count_mask_def loop_count_def
        wrap_increment_def lb word_sless_alt)
qed

section \<open>The transfer loop\<close>

text \<open>
  A rule for the loop of \<open>litepciedrv_ChannelRead\<close> and \<open>litepciedrv_ChannelWrite\<close>: an invariant \<open>I\<close> of the loop
  state that every iteration keeps gives \<open>Q\<close> at each of the three exits.
\<close>

lemma transfer_loop_rule:
  assumes init: "I (sw_count, bytes, overflows, evs)"
    and step: "\<And>sw b ov es. I (sw, b, ov, es) \<Longrightarrow> b < len \<Longrightarrow>
        \<not> len - b < scast (DMA_BUFFER_SIZE cfg) \<Longrightarrow> 0 <s hw_count - sw \<Longrightarrow>
        I (sw + 1, b + scast (DMA_BUFFER_SIZE cfg),
           (if scast (DMA_BUFFER_COUNT cfg - DMA_BUFFER_PER_IRQ cfg) <s hw_count - sw
            then ov + 1 else ov),
           es @ [SpinLockAcquire ix d, CounterAccess ix d Available, SpinLockRelease ix d,
                 CounterAccess ix d SlotIndex, MemoryCopy d b (slot_index cfg sw),
                 CounterAccess ix d Increment])"
    and starve: "\<And>sw b ov es. I (sw, b, ov, es) \<Longrightarrow> b < len \<Longrightarrow>
        \<not> len - b < scast (DMA_BUFFER_SIZE cfg) \<Longrightarrow> \<not> 0 <s hw_count - sw \<Longrightarrow>
        Q (sw, b, ov, es @ [SpinLockAcquire ix d, CounterAccess ix d Available,
                            SpinLockRelease ix d])"
    and stop: "\<And>sw b ov es. I (sw, b, ov, es) \<Longrightarrow>
        \<not> b < len \<or> len - b < scast (DMA_BUFFER_SIZE cfg) \<Longrightarrow> Q (sw, b, ov, es)"
  shows "Q (transfer_loop cfg ix d hw_count len (sw_count, bytes, overflows, evs))"
  using assms
proof (induction cfg ix d hw_count len "(sw_count, bytes, overflows, evs)"
    arbitrary: sw_count bytes overflows evs rule: transfer_loop.induct)
  case (1 cfg ix d hw_count len sw_count bytes overflows evs)
  note inv = "1.prems"(1) and step = "1.prems"(2) and starve = "1.prems"(3) and stop = "1.prems"(4)
  show ?case
  proof (cases "bytes < len \<and> \<not> len - bytes < scast (DMA_BUFFER_SIZE cfg)")
    case False
    then have "transfer_loop cfg ix d hw_count len (sw_count, bytes, overflows, evs) =
        (sw_count, bytes, overflows, evs)"
      by (subst transfer_loop.simps) auto
    moreover have "Q (sw_count, bytes, overflows, evs)"
      by (rule stop [OF inv]) (use False in blast)
    ultimately show ?thesis by simp
  next
    case go: True
    show ?thesis
    proof (cases "0 <s hw_count - sw_count")
      case False
      then have "transfer_loop cfg ix d hw_count len (sw_count, bytes, overflows, evs) =
          (sw_count, bytes, overflows,
           evs @ [SpinLockAcquire ix d, CounterAccess ix d Available, SpinLockRelease ix d])"
        using go by (subst transfer_loop.simps) simp
      moreover have "Q (sw_count, bytes, overflows,
           evs @ [SpinLockAcquire ix d, CounterAccess ix d Available, SpinLockRelease ix d])"
        by (rule starve [OF inv]) (use go False in simp_all)
      ultimately show ?thesis by simp
    next
      case True
      have eq: "transfer_loop cfg ix d hw_count len (sw_count, bytes, overflows, evs) =
          transfer_loop cfg ix d hw_count len
            (sw_count + 1, bytes + scast (DMA_BUFFER_SIZE cfg),
             (if scast (DMA_BUFFER_COUNT cfg - DMA_BUFFER_PER_IRQ cfg) <s hw_count - sw_count
              then overflows + 1 else overflows),
             evs @ [SpinLockAcquire ix d, CounterAccess ix d Available, SpinLockRelease ix d,
                    CounterAccess ix d SlotIndex, MemoryCopy d bytes (slot_index cfg sw_count),
                    CounterAccess ix d Increment])"
        using go True by (subst transfer_loop.simps) simp
      have next_inv: "I (sw_count + 1, bytes + scast (DMA_BUFFER_SIZE cfg),
             (if scast (DMA_BUFFER_COUNT cfg - DMA_BUFFER_PER_IRQ cfg) <s hw_count - sw_count
              then overflows + 1 else overflows),
             evs @ [SpinLockAcquire ix d, CounterAccess ix d Available, SpinLockRelease ix d,
                    CounterAccess ix d SlotIndex, MemoryCopy d bytes (slot_index cfg sw_count),
                    CounterAccess ix d Increment])"
        by (rule step [OF inv]) (use go True in simp_all)
      show ?thesis
        unfolding eq
      proof (rule "1.hyps" [OF _ _ _ next_inv])
        show "bytes < len" "\<not> len - bytes < scast (DMA_BUFFER_SIZE cfg)" "0 <s hw_count - sw_count"
          using go True by simp_all
      qed (fact step starve stop)+
    qed
  qed
qed

lemma completions_append: "completions (xs @ ys) = completions xs @ completions ys"
  by (induction xs rule: completions.induct) simp_all

lemma unat_add_block:
  fixes b len bs :: SIZE_T
  assumes "b < len" "\<not> len - b < bs"
  shows "unat (b + bs) = unat b + unat bs"
proof -
  have le: "b \<le> len" using assms(1) by simp
  have "unat (len - b) = unat len - unat b" by (rule unat_sub [OF le])
  moreover have "unat bs \<le> unat (len - b)" using assms(2) by (simp add: word_less_nat_alt)
  moreover have "unat b \<le> unat len" using le by (simp add: word_le_nat_alt)
  moreover have "unat len < 2 ^ 64" using unsigned_less [of len, where 'a = nat] by simp
  ultimately have "unat b + unat bs < 2 ^ 64" by linarith
  then show ?thesis using unat_add_lem [of b bs] by simp
qed

lemma transfer_loop_bytes:
  "case transfer_loop cfg ix d hw_count len (sw_count, 0, 0, []) of
     (sw, b, ov, es) \<Rightarrow> unat b = bytes_transferred cfg es \<and> completions es = []"
proof (rule transfer_loop_rule [where I = "\<lambda>(sw, b, ov, es).
      unat b = bytes_transferred cfg es \<and> completions es = []"])
  show "case (sw_count, 0 :: SIZE_T, 0 :: UINT32, [] :: event list) of
      (sw, b, ov, es) \<Rightarrow> unat b = bytes_transferred cfg es \<and> completions es = []"
    by (simp add: bytes_transferred_def)
qed (auto simp add: bytes_transferred_def completions_append unat_add_block)


lemma bytes_transferred_append:
  "bytes_transferred cfg (xs @ ys) = bytes_transferred cfg xs + bytes_transferred cfg ys"
  by (simp add: bytes_transferred_def add_mult_distrib)

lemma bytes_transferred_simps:
  "bytes_transferred cfg [] = 0"
  "bytes_transferred cfg [TraceOverflow d ov] = 0"
  "bytes_transferred cfg [RequestCompleteWithInformation request status info] = 0"
  by (simp_all add: bytes_transferred_def)

lemma sw_succ_le_hw:
  fixes sw hw :: INT64
  assumes le: "sw \<le>s hw" and avail: "0 <s hw - sw"
  shows "sw + 1 \<le>s hw"
proof -
  have "sint sw \<le> sint hw" using le by (simp add: word_sle_eq)
  moreover have "sint sw \<noteq> sint hw"
  proof
    assume "sint sw = sint hw"
    then have "sw = hw" by (rule signed_word_eqI)
    with avail show False by simp
  qed
  ultimately have lt: "sint sw < sint hw" by simp
  have "sint hw < 2 ^ 63" using sint_lt [of hw] by simp
  moreover have "- (2 ^ 63) \<le> sint sw" using sint_ge [of sw] by simp
  ultimately have "signed_take_bit 63 (sint sw + 1) = sint sw + 1"
    using lt by (intro signed_take_bit_int_eq_self) simp_all
  then have "sint (sw + 1) = sint sw + 1" by (simp add: sint_word_add)
  with lt show ?thesis by (simp add: word_sle_eq)
qed

lemma transfer_loop_sw_le:
  assumes "sw_count \<le>s hw_count"
  shows "fst (transfer_loop cfg ix d hw_count len (sw_count, bytes, overflows, evs)) \<le>s hw_count"
proof (rule transfer_loop_rule [where I = "\<lambda>(sw, b, ov, es). sw \<le>s hw_count"])
  show "case (sw_count, bytes, overflows, evs) of (sw, b, ov, es) \<Rightarrow> sw \<le>s hw_count"
    using assms by simp
qed (auto intro: sw_succ_le_hw)

section \<open>litepciedrv_ChannelRead and litepciedrv_ChannelWrite\<close>

lemma ChannelRead_outcome:
  assumes ok: "NT_SUCCESS (RetrieveOutputMemory fw request)"
  shows "case litepciedrv_ChannelRead cfg fw channel request len of
     (c', evs) \<Rightarrow>
       if 0 < bytes_transferred cfg evs
       then completions evs = [(request, STATUS_SUCCESS, of_nat (bytes_transferred cfg evs))] \<and>
            readRequest (dma c') = None \<and> readRemainingBytes (dma c') = 0
       else completions evs = [] \<and>
            readRequest (dma c') = Some request \<and> readRemainingBytes (dma c') = len"
proof -
  obtain sw b ov es where loop:
    "transfer_loop cfg (index channel) Writer (writer_hw_count (dma channel)) len
       (writer_sw_count (dma channel), 0, 0, []) = (sw, b, ov, es)"
    by (cases "transfer_loop cfg (index channel) Writer (writer_hw_count (dma channel)) len
       (writer_sw_count (dma channel), 0, 0, [])") auto
  have acc: "unat b = bytes_transferred cfg es" "completions es = []"
    using transfer_loop_bytes [of cfg "index channel" Writer "writer_hw_count (dma channel)" len
        "writer_sw_count (dma channel)"] by (simp_all add: loop)
  have pos: "0 < b \<longleftrightarrow> 0 < bytes_transferred cfg es"
    using acc(1) by (simp add: word_less_nat_alt)
  have "(of_nat (unat b) :: SIZE_T) = b" by simp
  then have val: "of_nat (bytes_transferred cfg es) = b"
    by (simp only: acc(1))
  have zero: "\<not> 0 < b \<Longrightarrow> b = 0"
    by (simp add: word_less_nat_alt unat_eq_0)
  show ?thesis
  proof (cases "0 < b")
    case True
    then show ?thesis
      using ok acc(2) pos val
      by (simp add: litepciedrv_ChannelRead_def loop Let_def bytes_transferred_append
          bytes_transferred_simps completions_append)
  next
    case False
    then show ?thesis
      using ok acc(2) pos zero
      by (simp add: litepciedrv_ChannelRead_def loop Let_def bytes_transferred_append
          bytes_transferred_simps completions_append)
  qed
qed

lemma ChannelWrite_outcome:
  assumes ok: "NT_SUCCESS (RetrieveInputMemory fw request)"
  shows "case litepciedrv_ChannelWrite cfg fw channel request len of
     (c', evs) \<Rightarrow>
       if 0 < bytes_transferred cfg evs
       then completions evs = [(request, STATUS_SUCCESS, of_nat (bytes_transferred cfg evs))] \<and>
            writeRequest (dma c') = None \<and> writeRemainingBytes (dma c') = 0
       else completions evs = [] \<and>
            writeRequest (dma c') = Some request \<and> writeRemainingBytes (dma c') = len"
proof -
  obtain sw b ov es where loop:
    "transfer_loop cfg (index channel) Reader (reader_hw_count (dma channel)) len
       (reader_sw_count (dma channel), 0, 0, []) = (sw, b, ov, es)"
    by (cases "transfer_loop cfg (index channel) Reader (reader_hw_count (dma channel)) len
       (reader_sw_count (dma channel), 0, 0, [])") auto
  have acc: "unat b = bytes_transferred cfg es" "completions es = []"
    using transfer_loop_bytes [of cfg "index channel" Reader "reader_hw_count (dma channel)" len
        "reader_sw_count (dma channel)"] by (simp_all add: loop)
  have pos: "0 < b \<longleftrightarrow> 0 < bytes_transferred cfg es"
    using acc(1) by (simp add: word_less_nat_alt)
  have "(of_nat (unat b) :: SIZE_T) = b" by simp
  then have val: "of_nat (bytes_transferred cfg es) = b"
    by (simp only: acc(1))
  have zero: "\<not> 0 < b \<Longrightarrow> b = 0"
    by (simp add: word_less_nat_alt unat_eq_0)
  show ?thesis
  proof (cases "0 < b")
    case True
    then show ?thesis
      using ok acc(2) pos val
      by (simp add: litepciedrv_ChannelWrite_def loop Let_def bytes_transferred_append
          bytes_transferred_simps completions_append)
  next
    case False
    then show ?thesis
      using ok acc(2) pos zero
      by (simp add: litepciedrv_ChannelWrite_def loop Let_def bytes_transferred_append
          bytes_transferred_simps completions_append)
  qed
qed

lemma ChannelRead_counters:
  "reader_hw_count (dma (fst (litepciedrv_ChannelRead cfg fw c request len))) = reader_hw_count (dma c)"
  "reader_hw_count_last (dma (fst (litepciedrv_ChannelRead cfg fw c request len))) = reader_hw_count_last (dma c)"
  "reader_sw_count (dma (fst (litepciedrv_ChannelRead cfg fw c request len))) = reader_sw_count (dma c)"
  "writer_hw_count (dma (fst (litepciedrv_ChannelRead cfg fw c request len))) = writer_hw_count (dma c)"
  "writer_hw_count_last (dma (fst (litepciedrv_ChannelRead cfg fw c request len))) = writer_hw_count_last (dma c)"
  "writeRequest (dma (fst (litepciedrv_ChannelRead cfg fw c request len))) = writeRequest (dma c)"
  "writeRemainingBytes (dma (fst (litepciedrv_ChannelRead cfg fw c request len))) = writeRemainingBytes (dma c)"
  "index (fst (litepciedrv_ChannelRead cfg fw c request len)) = index c"
  by (simp_all add: litepciedrv_ChannelRead_def Let_def split: prod.splits)

lemma ChannelWrite_counters:
  "writer_hw_count (dma (fst (litepciedrv_ChannelWrite cfg fw c request len))) = writer_hw_count (dma c)"
  "writer_hw_count_last (dma (fst (litepciedrv_ChannelWrite cfg fw c request len))) = writer_hw_count_last (dma c)"
  "writer_sw_count (dma (fst (litepciedrv_ChannelWrite cfg fw c request len))) = writer_sw_count (dma c)"
  "reader_hw_count (dma (fst (litepciedrv_ChannelWrite cfg fw c request len))) = reader_hw_count (dma c)"
  "reader_hw_count_last (dma (fst (litepciedrv_ChannelWrite cfg fw c request len))) = reader_hw_count_last (dma c)"
  "readRequest (dma (fst (litepciedrv_ChannelWrite cfg fw c request len))) = readRequest (dma c)"
  "readRemainingBytes (dma (fst (litepciedrv_ChannelWrite cfg fw c request len))) = readRemainingBytes (dma c)"
  "index (fst (litepciedrv_ChannelWrite cfg fw c request len)) = index c"
  by (simp_all add: litepciedrv_ChannelWrite_def Let_def split: prod.splits)

lemma ChannelRead_sw:
  "writer_sw_count (dma c) \<le>s writer_hw_count (dma c) \<Longrightarrow>
   writer_sw_count (dma (fst (litepciedrv_ChannelRead cfg fw c request len))) \<le>s writer_hw_count (dma c)"
  using transfer_loop_sw_le [of "writer_sw_count (dma c)" "writer_hw_count (dma c)" cfg
      "index c" Writer len 0 0 "[]"]
  by (auto simp add: litepciedrv_ChannelRead_def Let_def split: prod.splits)

lemma ChannelWrite_sw:
  "reader_sw_count (dma c) \<le>s reader_hw_count (dma c) \<Longrightarrow>
   reader_sw_count (dma (fst (litepciedrv_ChannelWrite cfg fw c request len))) \<le>s reader_hw_count (dma c)"
  using transfer_loop_sw_le [of "reader_sw_count (dma c)" "reader_hw_count (dma c)" cfg
      "index c" Reader len 0 0 "[]"]
  by (auto simp add: litepciedrv_ChannelWrite_def Let_def split: prod.splits)

text \<open>
  C4. Completion or parking. When the output memory of the request is retrieved, a pass
  of \<open>litepciedrv_ChannelRead\<close> that transfers a positive number of bytes completes the request
  with exactly that byte count and clears the parked read request and the remaining
  bytes; a pass that transfers nothing completes nothing and parks the request with
  the full length as remaining bytes. \<open>litepciedrv_ChannelWrite\<close> does the same on the write
  side when the input memory of the request is retrieved. Each half needs only its own
  retrieval to succeed. So no request stays parked after a pass that transferred bytes.
\<close>

theorem fulfilment_completes_or_parks:
  "(NT_SUCCESS (RetrieveOutputMemory fw request) \<longrightarrow>
     (case litepciedrv_ChannelRead cfg fw channel request len of
       (c', evs) \<Rightarrow>
         if 0 < bytes_transferred cfg evs
         then completions evs = [(request, STATUS_SUCCESS, of_nat (bytes_transferred cfg evs))] \<and>
              readRequest (dma c') = None \<and> readRemainingBytes (dma c') = 0
         else completions evs = [] \<and>
              readRequest (dma c') = Some request \<and> readRemainingBytes (dma c') = len)) \<and>
   (NT_SUCCESS (RetrieveInputMemory fw request) \<longrightarrow>
     (case litepciedrv_ChannelWrite cfg fw channel request len of
       (c', evs) \<Rightarrow>
         if 0 < bytes_transferred cfg evs
         then completions evs = [(request, STATUS_SUCCESS, of_nat (bytes_transferred cfg evs))] \<and>
              writeRequest (dma c') = None \<and> writeRemainingBytes (dma c') = 0
         else completions evs = [] \<and>
              writeRequest (dma c') = Some request \<and> writeRemainingBytes (dma c') = len))"
proof (intro conjI impI)
  assume "NT_SUCCESS (RetrieveOutputMemory fw request)"
  then show "case litepciedrv_ChannelRead cfg fw channel request len of
       (c', evs) \<Rightarrow>
         if 0 < bytes_transferred cfg evs
         then completions evs = [(request, STATUS_SUCCESS, of_nat (bytes_transferred cfg evs))] \<and>
              readRequest (dma c') = None \<and> readRemainingBytes (dma c') = 0
         else completions evs = [] \<and>
              readRequest (dma c') = Some request \<and> readRemainingBytes (dma c') = len"
    by (rule ChannelRead_outcome)
next
  assume "NT_SUCCESS (RetrieveInputMemory fw request)"
  then show "case litepciedrv_ChannelWrite cfg fw channel request len of
       (c', evs) \<Rightarrow>
         if 0 < bytes_transferred cfg evs
         then completions evs = [(request, STATUS_SUCCESS, of_nat (bytes_transferred cfg evs))] \<and>
              writeRequest (dma c') = None \<and> writeRemainingBytes (dma c') = 0
         else completions evs = [] \<and>
              writeRequest (dma c') = Some request \<and> writeRemainingBytes (dma c') = len"
    by (rule ChannelWrite_outcome)
qed

theorem fulfilment_completes_or_parks_witness:
  "NT_SUCCESS (RetrieveOutputMemory fw_output_only 7) \<and>
   \<not> NT_SUCCESS (RetrieveInputMemory fw_output_only 7) \<and>
   bytes_transferred (ring_config 8 4096 2)
     (snd (litepciedrv_ChannelRead (ring_config 8 4096 2) fw_output_only
        ((scenario_chan 4096)\<lparr>dma := (dma (scenario_chan 4096))\<lparr>writer_hw_count := 2\<rparr>\<rparr>) 7 8192)) = 8192 \<and>
   completions
     (snd (litepciedrv_ChannelRead (ring_config 8 4096 2) fw_output_only
        ((scenario_chan 4096)\<lparr>dma := (dma (scenario_chan 4096))\<lparr>writer_hw_count := 2\<rparr>\<rparr>) 7 8192)) =
     [(7, STATUS_SUCCESS, 8192)] \<and>
   readRequest (dma (fst (litepciedrv_ChannelRead (ring_config 8 4096 2) fw_output_only
        ((scenario_chan 4096)\<lparr>dma := (dma (scenario_chan 4096))\<lparr>writer_hw_count := 2\<rparr>\<rparr>) 7 8192))) = None \<and>
   NT_SUCCESS (RetrieveInputMemory fw_input_only 7) \<and>
   \<not> NT_SUCCESS (RetrieveOutputMemory fw_input_only 7) \<and>
   bytes_transferred (ring_config 8 4096 2)
     (snd (litepciedrv_ChannelWrite (ring_config 8 4096 2) fw_input_only
        ((scenario_chan 4096)\<lparr>dma := (dma (scenario_chan 4096))\<lparr>writer_hw_count := 2\<rparr>\<rparr>) 7 8192)) = 0 \<and>
   completions
     (snd (litepciedrv_ChannelWrite (ring_config 8 4096 2) fw_input_only
        ((scenario_chan 4096)\<lparr>dma := (dma (scenario_chan 4096))\<lparr>writer_hw_count := 2\<rparr>\<rparr>) 7 8192)) = [] \<and>
   writeRequest (dma (fst (litepciedrv_ChannelWrite (ring_config 8 4096 2) fw_input_only
        ((scenario_chan 4096)\<lparr>dma := (dma (scenario_chan 4096))\<lparr>writer_hw_count := 2\<rparr>\<rparr>) 7 8192))) = Some 7 \<and>
   writeRemainingBytes (dma (fst (litepciedrv_ChannelWrite (ring_config 8 4096 2) fw_input_only
        ((scenario_chan 4096)\<lparr>dma := (dma (scenario_chan 4096))\<lparr>writer_hw_count := 2\<rparr>\<rparr>) 7 8192))) = 8192"
proof -
  define c where "c = (scenario_chan 4096)\<lparr>dma := (dma (scenario_chan 4096))\<lparr>writer_hw_count := 2\<rparr>\<rparr>"
  have out: "NT_SUCCESS (RetrieveOutputMemory fw_output_only 7)"
    "\<not> NT_SUCCESS (RetrieveInputMemory fw_output_only 7)"
    by (simp_all add: fw_output_only_def NT_SUCCESS_def STATUS_SUCCESS_def word_sle_eq)
  have inp: "NT_SUCCESS (RetrieveInputMemory fw_input_only 7)"
    "\<not> NT_SUCCESS (RetrieveOutputMemory fw_input_only 7)"
    by (simp_all add: fw_input_only_def NT_SUCCESS_def STATUS_SUCCESS_def word_sle_eq)
  have rd: "bytes_transferred (ring_config 8 4096 2)
      (snd (litepciedrv_ChannelRead (ring_config 8 4096 2) fw_output_only c 7 8192)) = 8192"
    by (simp add: c_def bytes_transferred_def litepciedrv_ChannelRead_def fw_output_only_def
        NT_SUCCESS_def STATUS_SUCCESS_def scenario_chan_def cleared_dma_chan_def ring_config_def
        transfer_loop.simps slot_index_def word_sless_alt word_sle_eq smod_int_alt_def)
  have wr: "bytes_transferred (ring_config 8 4096 2)
      (snd (litepciedrv_ChannelWrite (ring_config 8 4096 2) fw_input_only c 7 8192)) = 0"
    by (simp add: c_def bytes_transferred_def litepciedrv_ChannelWrite_def fw_input_only_def
        NT_SUCCESS_def STATUS_SUCCESS_def scenario_chan_def cleared_dma_chan_def ring_config_def
        transfer_loop.simps slot_index_def word_sless_alt word_sle_eq smod_int_alt_def)
  have "completions (snd (litepciedrv_ChannelRead (ring_config 8 4096 2) fw_output_only c 7 8192)) =
      [(7, STATUS_SUCCESS, 8192)] \<and>
    readRequest (dma (fst (litepciedrv_ChannelRead (ring_config 8 4096 2) fw_output_only c 7 8192))) = None"
    using fulfilment_completes_or_parks [where fw = fw_output_only and request = 7
        and cfg = "ring_config 8 4096 2" and channel = c and len = 8192] out(1)
    by (simp add: case_prod_beta rd)
  moreover have "completions (snd (litepciedrv_ChannelWrite (ring_config 8 4096 2) fw_input_only c 7 8192)) = [] \<and>
    writeRequest (dma (fst (litepciedrv_ChannelWrite (ring_config 8 4096 2) fw_input_only c 7 8192))) = Some 7 \<and>
    writeRemainingBytes (dma (fst (litepciedrv_ChannelWrite (ring_config 8 4096 2) fw_input_only c 7 8192))) = 8192"
    using fulfilment_completes_or_parks [where fw = fw_input_only and request = 7
        and cfg = "ring_config 8 4096 2" and channel = c and len = 8192] inp(1)
    by (simp add: case_prod_beta wr)
  ultimately show ?thesis
    using out inp rd wr unfolding c_def by blast
qed

lemma transfer_loop_short:
  assumes "len < scast (DMA_BUFFER_SIZE cfg)"
  shows "transfer_loop cfg ix d hw_count len (sw_count, 0, overflows, evs) =
    (sw_count, 0, overflows, evs)"
  using assms by (subst transfer_loop.simps) simp

lemma ChannelRead_short:
  assumes "len < scast (DMA_BUFFER_SIZE cfg)" "NT_SUCCESS (RetrieveOutputMemory fw request)"
  shows "litepciedrv_ChannelRead cfg fw channel request len =
    (channel\<lparr>dma := (dma channel)\<lparr>readRequest := Some request, readRemainingBytes := len\<rparr>\<rparr>, [])"
  using assms by (simp add: litepciedrv_ChannelRead_def transfer_loop_short)

lemma ChannelWrite_short:
  assumes "len < scast (DMA_BUFFER_SIZE cfg)" "NT_SUCCESS (RetrieveInputMemory fw request)"
  shows "litepciedrv_ChannelWrite cfg fw channel request len =
    (channel\<lparr>dma := (dma channel)\<lparr>writeRequest := Some request, writeRemainingBytes := len\<rparr>\<rparr>, [])"
  using assms by (simp add: litepciedrv_ChannelWrite_def transfer_loop_short)

lemma ChannelRead_failed:
  assumes "\<not> NT_SUCCESS (RetrieveOutputMemory fw request)"
  shows "litepciedrv_ChannelRead cfg fw channel request len =
    (channel, [RequestCompleteWithInformation request (RetrieveOutputMemory fw request) 0])"
  using assms by (simp add: litepciedrv_ChannelRead_def)

lemma ChannelWrite_failed:
  assumes "\<not> NT_SUCCESS (RetrieveInputMemory fw request)"
  shows "litepciedrv_ChannelWrite cfg fw channel request len =
    (channel, [RequestCompleteWithInformation request (RetrieveInputMemory fw request) 0])"
  using assms by (simp add: litepciedrv_ChannelWrite_def)

text \<open>
  C10, as stated, fails when the request's memory cannot be retrieved: a read request
  of length 0 (shorter than the buffer size 4096) whose retrieval fails is completed
  with the error status and zero bytes, and is not parked.
\<close>

theorem short_request_counterexample:
  "(0 :: SIZE_T) < scast (DMA_BUFFER_SIZE (ring_config 8 4096 2)) \<and>
   litepciedrv_ChannelRead (ring_config 8 4096 2) fw_fail (scenario_chan 4096) 7 0 =
     (scenario_chan 4096, [RequestCompleteWithInformation 7 0xC0000023 0]) \<and>
   readRequest (dma (scenario_chan 4096)) = None"
  by (simp add: litepciedrv_ChannelRead_def fw_fail_def NT_SUCCESS_def ring_config_def scenario_chan_def
      cleared_dma_chan_def word_sle_eq)

text \<open>
  C10, amended. When the output memory of the request is retrieved and the requested
  length is below \<open>DMA_BUFFER_SIZE\<close> (zero included), \<open>litepciedrv_ChannelRead\<close> does nothing but
  park the request with the requested length as remaining bytes: no lock is taken,
  nothing is copied, nothing is completed and no counter changes, whatever the ring
  counters are; a later pass with the parked request and its remaining bytes leaves
  the channel as it is and again does nothing, so such a request is never completed
  by a pass whose retrieval succeeds. \<open>litepciedrv_ChannelWrite\<close> does the same when the input
  memory of the request is retrieved. When the retrieval fails, whatever the length,
  the request is completed at once with the status of the retrieval and zero bytes,
  and the channel, with whatever request is parked in it, is left unchanged.
\<close>

theorem short_request_parks:
  "(len < scast (DMA_BUFFER_SIZE cfg) \<and> NT_SUCCESS (RetrieveOutputMemory fw request) \<longrightarrow>
      litepciedrv_ChannelRead cfg fw channel request len =
        (channel\<lparr>dma := (dma channel)\<lparr>readRequest := Some request, readRemainingBytes := len\<rparr>\<rparr>, []) \<and>
      litepciedrv_ChannelRead cfg fw (fst (litepciedrv_ChannelRead cfg fw channel request len)) request
          (readRemainingBytes (dma (fst (litepciedrv_ChannelRead cfg fw channel request len)))) =
        (fst (litepciedrv_ChannelRead cfg fw channel request len), [])) \<and>
   (len < scast (DMA_BUFFER_SIZE cfg) \<and> NT_SUCCESS (RetrieveInputMemory fw request) \<longrightarrow>
      litepciedrv_ChannelWrite cfg fw channel request len =
        (channel\<lparr>dma := (dma channel)\<lparr>writeRequest := Some request, writeRemainingBytes := len\<rparr>\<rparr>, []) \<and>
      litepciedrv_ChannelWrite cfg fw (fst (litepciedrv_ChannelWrite cfg fw channel request len)) request
          (writeRemainingBytes (dma (fst (litepciedrv_ChannelWrite cfg fw channel request len)))) =
        (fst (litepciedrv_ChannelWrite cfg fw channel request len), [])) \<and>
   (\<not> NT_SUCCESS (RetrieveOutputMemory fw request) \<longrightarrow>
      litepciedrv_ChannelRead cfg fw channel request len =
        (channel, [RequestCompleteWithInformation request (RetrieveOutputMemory fw request) 0])) \<and>
   (\<not> NT_SUCCESS (RetrieveInputMemory fw request) \<longrightarrow>
      litepciedrv_ChannelWrite cfg fw channel request len =
        (channel, [RequestCompleteWithInformation request (RetrieveInputMemory fw request) 0]))"
  by (simp add: ChannelRead_short ChannelWrite_short ChannelRead_failed ChannelWrite_failed)

theorem short_request_parks_witness:
  "(100 :: SIZE_T) < scast (DMA_BUFFER_SIZE (ring_config 8 4096 2)) \<and>
   NT_SUCCESS (RetrieveOutputMemory fw_output_only 7) \<and>
   \<not> NT_SUCCESS (RetrieveInputMemory fw_output_only 7) \<and>
   litepciedrv_ChannelRead (ring_config 8 4096 2) fw_output_only
       ((scenario_chan 4096)\<lparr>dma := (dma (scenario_chan 4096))\<lparr>writer_hw_count := 5\<rparr>\<rparr>) 7 100 =
     ((scenario_chan 4096)\<lparr>dma := (dma (scenario_chan 4096))\<lparr>writer_hw_count := 5,
         readRequest := Some 7, readRemainingBytes := 100\<rparr>\<rparr>, []) \<and>
   litepciedrv_ChannelRead (ring_config 8 4096 2) fw_output_only
       ((scenario_chan 4096)\<lparr>dma := (dma (scenario_chan 4096))\<lparr>writer_hw_count := 5,
         readRequest := Some 7, readRemainingBytes := 100\<rparr>\<rparr>) 7 100 =
     ((scenario_chan 4096)\<lparr>dma := (dma (scenario_chan 4096))\<lparr>writer_hw_count := 5,
         readRequest := Some 7, readRemainingBytes := 100\<rparr>\<rparr>, []) \<and>
   NT_SUCCESS (RetrieveInputMemory fw_input_only 7) \<and>
   \<not> NT_SUCCESS (RetrieveOutputMemory fw_input_only 7) \<and>
   litepciedrv_ChannelWrite (ring_config 8 4096 2) fw_input_only (scenario_chan 4096) 7 100 =
     ((scenario_chan 4096)\<lparr>dma := (dma (scenario_chan 4096))\<lparr>
         writeRequest := Some 7, writeRemainingBytes := 100\<rparr>\<rparr>, []) \<and>
   litepciedrv_ChannelRead (ring_config 8 4096 2) fw_input_only parked_chan 7 100 =
     (parked_chan, [RequestCompleteWithInformation 7 0xC0000023 0]) \<and>
   litepciedrv_ChannelWrite (ring_config 8 4096 2) fw_output_only parked_chan 7 100 =
     (parked_chan, [RequestCompleteWithInformation 7 0xC0000023 0])"
proof -
  define c where "c = (scenario_chan 4096)\<lparr>dma := (dma (scenario_chan 4096))\<lparr>writer_hw_count := 5\<rparr>\<rparr>"
  have short: "(100 :: SIZE_T) < scast (DMA_BUFFER_SIZE (ring_config 8 4096 2))"
    by (simp add: ring_config_def)
  have ok: "NT_SUCCESS (RetrieveOutputMemory fw_output_only 7)"
    "\<not> NT_SUCCESS (RetrieveInputMemory fw_output_only 7)"
    "NT_SUCCESS (RetrieveInputMemory fw_input_only 7)"
    "\<not> NT_SUCCESS (RetrieveOutputMemory fw_input_only 7)"
    by (simp_all add: fw_output_only_def fw_input_only_def NT_SUCCESS_def STATUS_SUCCESS_def
        word_sle_eq)
  have st: "RetrieveInputMemory fw_output_only 7 = 0xC0000023"
    "RetrieveOutputMemory fw_input_only 7 = 0xC0000023"
    by (simp_all add: fw_output_only_def fw_input_only_def)
  note rd = short_request_parks [where cfg = "ring_config 8 4096 2" and fw = fw_output_only
      and channel = c and request = 7 and len = 100]
  note wr = short_request_parks [where cfg = "ring_config 8 4096 2" and fw = fw_input_only
      and channel = "scenario_chan 4096" and request = 7 and len = 100]
  note rf = short_request_parks [where cfg = "ring_config 8 4096 2" and fw = fw_input_only
      and channel = parked_chan and request = 7 and len = 100]
  note wf = short_request_parks [where cfg = "ring_config 8 4096 2" and fw = fw_output_only
      and channel = parked_chan and request = 7 and len = 100]
  from rd short ok have r1: "litepciedrv_ChannelRead (ring_config 8 4096 2) fw_output_only c 7 100 =
      (c\<lparr>dma := (dma c)\<lparr>readRequest := Some 7, readRemainingBytes := 100\<rparr>\<rparr>, [])"
    by blast
  from rd short ok have r2: "litepciedrv_ChannelRead (ring_config 8 4096 2) fw_output_only
       (fst (litepciedrv_ChannelRead (ring_config 8 4096 2) fw_output_only c 7 100)) 7
       (readRemainingBytes (dma (fst (litepciedrv_ChannelRead (ring_config 8 4096 2) fw_output_only c 7 100)))) =
      (fst (litepciedrv_ChannelRead (ring_config 8 4096 2) fw_output_only c 7 100), [])"
    by blast
  from wr short ok have w1: "litepciedrv_ChannelWrite (ring_config 8 4096 2) fw_input_only (scenario_chan 4096) 7 100 =
      ((scenario_chan 4096)\<lparr>dma := (dma (scenario_chan 4096))\<lparr>writeRequest := Some 7, writeRemainingBytes := 100\<rparr>\<rparr>, [])"
    by blast
  from rf ok have f1: "litepciedrv_ChannelRead (ring_config 8 4096 2) fw_input_only parked_chan 7 100 =
      (parked_chan, [RequestCompleteWithInformation 7 (RetrieveOutputMemory fw_input_only 7) 0])"
    by blast
  from wf ok have f2: "litepciedrv_ChannelWrite (ring_config 8 4096 2) fw_output_only parked_chan 7 100 =
      (parked_chan, [RequestCompleteWithInformation 7 (RetrieveInputMemory fw_output_only 7) 0])"
    by blast
  from r2 have r2': "litepciedrv_ChannelRead (ring_config 8 4096 2) fw_output_only
       (c\<lparr>dma := (dma c)\<lparr>readRequest := Some 7, readRemainingBytes := 100\<rparr>\<rparr>) 7 100 =
      (c\<lparr>dma := (dma c)\<lparr>readRequest := Some 7, readRemainingBytes := 100\<rparr>\<rparr>, [])"
    by (simp add: r1)
  show ?thesis
    using short ok r1 r2' w1 f1 f2 by (simp add: c_def st)
qed

section \<open>The deferred pass, channel by channel\<close>

lemma dpc_reader_fst:
  "fst (dpc_reader cfg csr fw regs irq_vector (pChan, clear_mask, evs)) =
   fst (dpc_reader cfg csr fw regs irq_vector (pChan, 0, []))"
  by (simp add: dpc_reader_def Let_def)

lemma dpc_writer_fst:
  "fst (dpc_writer cfg csr fw regs irq_vector (pChan, clear_mask, evs)) =
   fst (dpc_writer cfg csr fw regs irq_vector (pChan, 0, []))"
  by (simp add: dpc_writer_def Let_def)

lemma dpc_step_chan:
  "fst (dpc_writer cfg csr fw regs irq_vector
          (dpc_reader cfg csr fw regs irq_vector (pChan, clear_mask, evs))) =
   dpc_chan cfg csr fw regs irq_vector pChan"
proof -
  obtain c1 m1 e1 where r1: "dpc_reader cfg csr fw regs irq_vector (pChan, clear_mask, evs) = (c1, m1, e1)"
    by (cases "dpc_reader cfg csr fw regs irq_vector (pChan, clear_mask, evs)") auto
  obtain c2 m2 e2 where r2: "dpc_reader cfg csr fw regs irq_vector (pChan, 0, []) = (c2, m2, e2)"
    by (cases "dpc_reader cfg csr fw regs irq_vector (pChan, 0, [])") auto
  have "c1 = c2"
    using dpc_reader_fst [of cfg csr fw regs irq_vector pChan clear_mask evs] by (simp add: r1 r2)
  then show ?thesis
    using dpc_writer_fst [of cfg csr fw regs irq_vector c1 m1 e1]
      dpc_writer_fst [of cfg csr fw regs irq_vector c2 m2 e2]
    by (simp add: dpc_chan_def r1 r2)
qed

lemma dpc_loop_chans:
  "fst (dpc_loop cfg csr fw regs irq_vector chans clear_mask evs) =
   map (dpc_chan cfg csr fw regs irq_vector) chans"
proof (induction chans arbitrary: clear_mask evs)
  case Nil
  then show ?case by simp
next
  case (Cons pChan rest)
  obtain c m e where st: "dpc_writer cfg csr fw regs irq_vector
      (dpc_reader cfg csr fw regs irq_vector (pChan, clear_mask, evs)) = (c, m, e)"
    by (cases "dpc_writer cfg csr fw regs irq_vector
      (dpc_reader cfg csr fw regs irq_vector (pChan, clear_mask, evs))") auto
  have "c = dpc_chan cfg csr fw regs irq_vector pChan"
    using dpc_step_chan [of cfg csr fw regs irq_vector pChan clear_mask evs] by (simp add: st)
  moreover obtain rest' m' e' where rec: "dpc_loop cfg csr fw regs irq_vector rest m e = (rest', m', e')"
    by (cases "dpc_loop cfg csr fw regs irq_vector rest m e") auto
  moreover have "rest' = map (dpc_chan cfg csr fw regs irq_vector) rest"
    using Cons.IH [of m e] by (simp add: rec)
  ultimately show ?case by (simp add: st)
qed

lemma EvtDpc_chans:
  "chan (fst (litepcie_EvtDpc cfg csr fw regs dev)) =
   map (dpc_chan cfg csr fw regs (irqs_pending dev AND regs (CSR_PCIE_MSI_ENABLE_ADDR csr))) (chan dev)"
proof -
  obtain chans m e where rec: "dpc_loop cfg csr fw regs
      (irqs_pending dev AND regs (CSR_PCIE_MSI_ENABLE_ADDR csr)) (chan dev) 0 [] = (chans, m, e)"
    by (cases "dpc_loop cfg csr fw regs
      (irqs_pending dev AND regs (CSR_PCIE_MSI_ENABLE_ADDR csr)) (chan dev) 0 []") auto
  then have "chans = map (dpc_chan cfg csr fw regs
      (irqs_pending dev AND regs (CSR_PCIE_MSI_ENABLE_ADDR csr))) (chan dev)"
    using dpc_loop_chans [of cfg csr fw regs
      "irqs_pending dev AND regs (CSR_PCIE_MSI_ENABLE_ADDR csr)" "chan dev" 0 "[]"] by simp
  then show ?thesis by (simp add: litepcie_EvtDpc_def Let_def rec)
qed

lemma ChannelRead_request:
  "readRequest (dma (fst (litepciedrv_ChannelRead cfg fw c request len))) = None \<or>
   readRequest (dma (fst (litepciedrv_ChannelRead cfg fw c request len))) = Some request \<or>
   (\<not> NT_SUCCESS (RetrieveOutputMemory fw request) \<and> fst (litepciedrv_ChannelRead cfg fw c request len) = c)"
  by (simp add: litepciedrv_ChannelRead_def Let_def split: prod.splits)

lemma ChannelWrite_request:
  "writeRequest (dma (fst (litepciedrv_ChannelWrite cfg fw c request len))) = None \<or>
   writeRequest (dma (fst (litepciedrv_ChannelWrite cfg fw c request len))) = Some request \<or>
   (\<not> NT_SUCCESS (RetrieveInputMemory fw request) \<and> fst (litepciedrv_ChannelWrite cfg fw c request len) = c)"
  by (simp add: litepciedrv_ChannelWrite_def Let_def split: prod.splits)

lemma resolved_or_kept_mono:
  "resolved_or_kept before after evs \<Longrightarrow> resolved_or_kept before after (pre @ evs @ post)"
  by (auto simp add: resolved_or_kept_def completions_append split: option.splits)

lemma resolved_or_kept_refl: "resolved_or_kept before before evs"
  by (simp add: resolved_or_kept_def)

lemma parked_resolved_mono:
  "parked_resolved c c' evs \<Longrightarrow> parked_resolved c c' (pre @ evs @ post)"
  by (simp add: parked_resolved_def resolved_or_kept_mono)

lemma ChannelWrite_resolves:
  "resolved_or_kept (Some request)
     (writeRequest (dma (fst (litepciedrv_ChannelWrite cfg fw c request len))))
     (snd (litepciedrv_ChannelWrite cfg fw c request len)) \<or>
   (\<not> NT_SUCCESS (RetrieveInputMemory fw request) \<and>
    fst (litepciedrv_ChannelWrite cfg fw c request len) = c)"
proof (cases "NT_SUCCESS (RetrieveInputMemory fw request)")
  case False
  then show ?thesis by (simp add: litepciedrv_ChannelWrite_def)
next
  case True
  obtain sw b ov es where L:
    "transfer_loop cfg (index c) Reader (reader_hw_count (dma c)) len
       (reader_sw_count (dma c), 0, 0, []) = (sw, b, ov, es)"
    by (cases "transfer_loop cfg (index c) Reader (reader_hw_count (dma c)) len
       (reader_sw_count (dma c), 0, 0, [])") auto
  have "completions es = []"
    using transfer_loop_bytes [of cfg "index c" Reader "reader_hw_count (dma c)" len
        "reader_sw_count (dma c)"] by (simp add: L)
  then show ?thesis
    using True
    by (simp add: litepciedrv_ChannelWrite_def L Let_def resolved_or_kept_def completions_append)
qed

lemma ChannelRead_resolves:
  "resolved_or_kept (Some request)
     (readRequest (dma (fst (litepciedrv_ChannelRead cfg fw c request len))))
     (snd (litepciedrv_ChannelRead cfg fw c request len)) \<or>
   (\<not> NT_SUCCESS (RetrieveOutputMemory fw request) \<and>
    fst (litepciedrv_ChannelRead cfg fw c request len) = c)"
proof (cases "NT_SUCCESS (RetrieveOutputMemory fw request)")
  case False
  then show ?thesis by (simp add: litepciedrv_ChannelRead_def)
next
  case True
  obtain sw b ov es where L:
    "transfer_loop cfg (index c) Writer (writer_hw_count (dma c)) len
       (writer_sw_count (dma c), 0, 0, []) = (sw, b, ov, es)"
    by (cases "transfer_loop cfg (index c) Writer (writer_hw_count (dma c)) len
       (writer_sw_count (dma c), 0, 0, [])") auto
  have "completions es = []"
    using transfer_loop_bytes [of cfg "index c" Writer "writer_hw_count (dma c)" len
        "writer_sw_count (dma c)"] by (simp add: L)
  then show ?thesis
    using True
    by (simp add: litepciedrv_ChannelRead_def L Let_def resolved_or_kept_def completions_append)
qed

lemma dpc_reader_resolves:
  "\<exists>xs. snd (snd (dpc_reader cfg csr fw regs irq_vector (c, m, e))) = e @ xs \<and>
     parked_resolved c (fst (dpc_reader cfg csr fw regs irq_vector (c, m, e))) xs"
proof (cases "irq_vector AND push_bit (unat (reader_interrupt (dma c))) 1 \<noteq> 0")
  case False
  then have "snd (snd (dpc_reader cfg csr fw regs irq_vector (c, m, e))) = e @ []"
    "fst (dpc_reader cfg csr fw regs irq_vector (c, m, e)) = c"
    by (simp_all add: dpc_reader_def)
  then show ?thesis
    by (metis parked_resolved_def resolved_or_kept_refl)
next
  case True
  define c1 where "c1 = c\<lparr>dma := (dma c)\<lparr>reader_hw_count :=
      fst (reconcile cfg (regs (base (dma c) + PCIE_DMA_READER_TABLE_LOOP_STATUS_OFFSET csr))
            (reader_hw_count (dma c), reader_hw_count_last (dma c))),
      reader_hw_count_last :=
      snd (reconcile cfg (regs (base (dma c) + PCIE_DMA_READER_TABLE_LOOP_STATUS_OFFSET csr))
            (reader_hw_count (dma c), reader_hw_count_last (dma c)))\<rparr>\<rparr>"
  define lock where "lock = [SpinLockAcquire (index c) Reader,
      CounterAccess (index c) Reader Reconcile, SpinLockRelease (index c) Reader]"
  have same: "readRequest (dma c1) = readRequest (dma c)" "writeRequest (dma c1) = writeRequest (dma c)"
    by (simp_all add: c1_def)
  show ?thesis
  proof (cases "writeRequest (dma c)")
    case None
    then have "snd (snd (dpc_reader cfg csr fw regs irq_vector (c, m, e))) = e @ lock"
      "fst (dpc_reader cfg csr fw regs irq_vector (c, m, e)) = c1"
      using True by (simp_all add: dpc_reader_def Let_def c1_def lock_def)
    then show ?thesis
      using same by (metis parked_resolved_def resolved_or_kept_refl)
  next
    case (Some request)
    define res where "res = litepciedrv_ChannelWrite cfg fw c1 request (writeRemainingBytes (dma c))"
    have ev: "snd (snd (dpc_reader cfg csr fw regs irq_vector (c, m, e))) = e @ (lock @ snd res @ [])"
      and ch: "fst (dpc_reader cfg csr fw regs irq_vector (c, m, e)) = fst res"
      using True Some by (simp_all add: dpc_reader_def Let_def c1_def lock_def res_def)
    have rd: "readRequest (dma (fst res)) = readRequest (dma c)"
      unfolding res_def by (simp add: ChannelWrite_counters same)
    have "resolved_or_kept (Some request) (writeRequest (dma (fst res))) (snd res)"
      using ChannelWrite_resolves [of request cfg fw c1 "writeRemainingBytes (dma c)"] same(2) Some
      by (auto simp add: res_def resolved_or_kept_def)
    then have "resolved_or_kept (writeRequest (dma c)) (writeRequest (dma (fst res)))
        (lock @ snd res @ [])"
      unfolding Some by (rule resolved_or_kept_mono)
    then have "parked_resolved c (fst res) (lock @ snd res @ [])"
      by (simp add: parked_resolved_def rd resolved_or_kept_def)
    then show ?thesis using ev ch by metis
  qed
qed

lemma dpc_writer_resolves:
  "\<exists>xs. snd (snd (dpc_writer cfg csr fw regs irq_vector (c, m, e))) = e @ xs \<and>
     parked_resolved c (fst (dpc_writer cfg csr fw regs irq_vector (c, m, e))) xs"
proof (cases "irq_vector AND push_bit (unat (writer_interrupt (dma c))) 1 \<noteq> 0")
  case False
  then have "snd (snd (dpc_writer cfg csr fw regs irq_vector (c, m, e))) = e @ []"
    "fst (dpc_writer cfg csr fw regs irq_vector (c, m, e)) = c"
    by (simp_all add: dpc_writer_def)
  then show ?thesis
    by (metis parked_resolved_def resolved_or_kept_refl)
next
  case True
  define c1 where "c1 = c\<lparr>dma := (dma c)\<lparr>writer_hw_count :=
      fst (reconcile cfg (regs (base (dma c) + PCIE_DMA_WRITER_TABLE_LOOP_STATUS_OFFSET csr))
            (writer_hw_count (dma c), writer_hw_count_last (dma c))),
      writer_hw_count_last :=
      snd (reconcile cfg (regs (base (dma c) + PCIE_DMA_WRITER_TABLE_LOOP_STATUS_OFFSET csr))
            (writer_hw_count (dma c), writer_hw_count_last (dma c)))\<rparr>\<rparr>"
  define lock where "lock = [SpinLockAcquire (index c) Writer,
      CounterAccess (index c) Writer Reconcile, SpinLockRelease (index c) Writer]"
  have same: "readRequest (dma c1) = readRequest (dma c)" "writeRequest (dma c1) = writeRequest (dma c)"
    by (simp_all add: c1_def)
  show ?thesis
  proof (cases "readRequest (dma c)")
    case None
    then have "snd (snd (dpc_writer cfg csr fw regs irq_vector (c, m, e))) = e @ lock"
      "fst (dpc_writer cfg csr fw regs irq_vector (c, m, e)) = c1"
      using True by (simp_all add: dpc_writer_def Let_def c1_def lock_def)
    then show ?thesis
      using same by (metis parked_resolved_def resolved_or_kept_refl)
  next
    case (Some request)
    define res where "res = litepciedrv_ChannelRead cfg fw c1 request (readRemainingBytes (dma c))"
    have ev: "snd (snd (dpc_writer cfg csr fw regs irq_vector (c, m, e))) = e @ (lock @ snd res @ [])"
      and ch: "fst (dpc_writer cfg csr fw regs irq_vector (c, m, e)) = fst res"
      using True Some by (simp_all add: dpc_writer_def Let_def c1_def lock_def res_def)
    have wr: "writeRequest (dma (fst res)) = writeRequest (dma c)"
      unfolding res_def by (simp add: ChannelRead_counters same)
    have "resolved_or_kept (Some request) (readRequest (dma (fst res))) (snd res)"
      using ChannelRead_resolves [of request cfg fw c1 "readRemainingBytes (dma c)"] same(1) Some
      by (auto simp add: res_def resolved_or_kept_def)
    then have "resolved_or_kept (readRequest (dma c)) (readRequest (dma (fst res)))
        (lock @ snd res @ [])"
      unfolding Some by (rule resolved_or_kept_mono)
    then have "parked_resolved c (fst res) (lock @ snd res @ [])"
      by (simp add: parked_resolved_def wr resolved_or_kept_def)
    then show ?thesis using ev ch by metis
  qed
qed

lemma resolved_or_kept_trans:
  "resolved_or_kept a b xs \<Longrightarrow> resolved_or_kept b c ys \<Longrightarrow> resolved_or_kept a c (xs @ ys)"
  by (auto simp add: resolved_or_kept_def completions_append split: option.splits)

lemma parked_resolved_trans:
  "parked_resolved a b xs \<Longrightarrow> parked_resolved b c ys \<Longrightarrow> parked_resolved a c (xs @ ys)"
  by (auto simp add: parked_resolved_def intro: resolved_or_kept_trans)

lemma dpc_step_resolves:
  "\<exists>xs. snd (snd (dpc_writer cfg csr fw regs irq_vector
                     (dpc_reader cfg csr fw regs irq_vector (c, m, e)))) = e @ xs \<and>
     parked_resolved c
       (fst (dpc_writer cfg csr fw regs irq_vector
               (dpc_reader cfg csr fw regs irq_vector (c, m, e)))) xs"
proof -
  obtain c1 m1 e1 where r: "dpc_reader cfg csr fw regs irq_vector (c, m, e) = (c1, m1, e1)"
    by (cases "dpc_reader cfg csr fw regs irq_vector (c, m, e)") auto
  obtain xs where xs: "e1 = e @ xs" "parked_resolved c c1 xs"
    using dpc_reader_resolves [of cfg csr fw regs irq_vector c m e] by (auto simp add: r)
  obtain ys where ys: "snd (snd (dpc_writer cfg csr fw regs irq_vector (c1, m1, e1))) = e1 @ ys"
    "parked_resolved c1 (fst (dpc_writer cfg csr fw regs irq_vector (c1, m1, e1))) ys"
    using dpc_writer_resolves [of cfg csr fw regs irq_vector c1 m1 e1] by auto
  have "snd (snd (dpc_writer cfg csr fw regs irq_vector (c1, m1, e1))) = e @ (xs @ ys)"
    using xs(1) ys(1) by simp
  moreover have "parked_resolved c (fst (dpc_writer cfg csr fw regs irq_vector (c1, m1, e1))) (xs @ ys)"
    by (rule parked_resolved_trans [OF xs(2) ys(2)])
  ultimately show ?thesis unfolding r by blast
qed

lemma dpc_loop_resolves:
  "\<exists>new. snd (snd (dpc_loop cfg csr fw regs irq_vector chans clear_mask evs)) = evs @ new \<and>
     list_all2 (\<lambda>c c'. parked_resolved c c' new) chans
       (fst (dpc_loop cfg csr fw regs irq_vector chans clear_mask evs))"
proof (induction chans arbitrary: clear_mask evs)
  case Nil
  then show ?case by simp
next
  case (Cons pChan rest)
  obtain c m e where st: "dpc_writer cfg csr fw regs irq_vector
      (dpc_reader cfg csr fw regs irq_vector (pChan, clear_mask, evs)) = (c, m, e)"
    by (cases "dpc_writer cfg csr fw regs irq_vector
      (dpc_reader cfg csr fw regs irq_vector (pChan, clear_mask, evs))") auto
  obtain xs where xs: "e = evs @ xs" "parked_resolved pChan c xs"
    using dpc_step_resolves [of cfg csr fw regs irq_vector pChan clear_mask evs]
    by (auto simp add: st)
  obtain rest' m' e' where rec: "dpc_loop cfg csr fw regs irq_vector rest m e = (rest', m', e')"
    by (cases "dpc_loop cfg csr fw regs irq_vector rest m e") auto
  obtain ys where ys: "e' = e @ ys" "list_all2 (\<lambda>c c'. parked_resolved c c' ys) rest rest'"
    using Cons.IH [of m e] by (auto simp add: rec)
  have "parked_resolved pChan c (xs @ ys)"
    using parked_resolved_mono [OF xs(2), of "[]" ys] by simp
  moreover have "list_all2 (\<lambda>c c'. parked_resolved c c' (xs @ ys)) rest rest'"
  proof (rule list_all2_mono [OF ys(2)])
    fix a b assume "parked_resolved a b ys"
    then show "parked_resolved a b (xs @ ys)"
      using parked_resolved_mono [of a b ys xs "[]"] by simp
  qed
  moreover have "e' = evs @ (xs @ ys)" using xs(1) ys(1) by simp
  ultimately show ?case by (auto simp add: st rec)
qed

lemma EvtDpc_resolves:
  "list_all2 (\<lambda>c c'. parked_resolved c c' (snd (litepcie_EvtDpc cfg csr fw regs dev)))
     (chan dev) (chan (fst (litepcie_EvtDpc cfg csr fw regs dev)))"
proof -
  obtain chans m e where rec: "dpc_loop cfg csr fw regs
      (irqs_pending dev AND regs (CSR_PCIE_MSI_ENABLE_ADDR csr)) (chan dev) 0 [] = (chans, m, e)"
    by (cases "dpc_loop cfg csr fw regs
      (irqs_pending dev AND regs (CSR_PCIE_MSI_ENABLE_ADDR csr)) (chan dev) 0 []") auto
  have "list_all2 (\<lambda>c c'. parked_resolved c c' e) (chan dev) chans"
    using dpc_loop_resolves [of cfg csr fw regs
      "irqs_pending dev AND regs (CSR_PCIE_MSI_ENABLE_ADDR csr)" "chan dev" 0 "[]"]
    by (simp add: rec)
  then show ?thesis by (simp add: litepcie_EvtDpc_def Let_def rec)
qed

lemma start_stop_parked:
  "litepcie_dma_writer_start cfg csr dev ix = Some (dev', evs) \<Longrightarrow>
     map parked (chan dev') = map parked (chan dev)"
  "litepcie_dma_reader_start cfg csr dev ix = Some (dev', evs) \<Longrightarrow>
     map parked (chan dev') = map parked (chan dev)"
  "litepcie_dma_writer_stop csr dev ix = Some (dev', evs) \<Longrightarrow>
     map parked (chan dev') = map parked (chan dev)"
  "litepcie_dma_reader_stop csr dev ix = Some (dev', evs) \<Longrightarrow>
     map parked (chan dev') = map parked (chan dev)"
  by (auto simp add: litepcie_dma_writer_start_def litepcie_dma_reader_start_def
      litepcie_dma_writer_stop_def litepcie_dma_reader_stop_def Let_def parked_def
      map_update list_update_same_conv split: if_splits option.splits)

lemma scenario_chan_fields:
  "index (scenario_chan bs) = 0"
  "base (dma (scenario_chan bs)) = 0x2000"
  "writer_interrupt (dma (scenario_chan bs)) = 0"
  "reader_interrupt (dma (scenario_chan bs)) = 1"
  "reader_hw_count (dma (scenario_chan bs)) = 0"
  "reader_hw_count_last (dma (scenario_chan bs)) = 0"
  "reader_sw_count (dma (scenario_chan bs)) = 0"
  "writer_hw_count (dma (scenario_chan bs)) = 0"
  "writer_hw_count_last (dma (scenario_chan bs)) = 0"
  "writer_sw_count (dma (scenario_chan bs)) = 0"
  "readRequest (dma (scenario_chan bs)) = None"
  "writeRequest (dma (scenario_chan bs)) = None"
  "readRemainingBytes (dma (scenario_chan bs)) = 0"
  "writeRemainingBytes (dma (scenario_chan bs)) = 0"
  by (simp_all add: scenario_chan_def cleared_dma_chan_def)

lemma dpc_resolves_parked_read:
  "litepcie_EvtDpc (ring_config 8 4096 2) scenario_csr fw_ok (scenario_regs 0 0 1)
      (scenario_dev parked_chan 1) =
     (\<lparr>chan = [(scenario_chan 4096)\<lparr>dma := (dma (scenario_chan 4096))\<lparr>
           writer_hw_count := 1, writer_hw_count_last := 1, writer_sw_count := 1\<rparr>\<rparr>],
       irqs_requested = 3, irqs_pending = 0\<rparr>,
      [SpinLockAcquire 0 Writer, CounterAccess 0 Writer Reconcile, SpinLockRelease 0 Writer,
       SpinLockAcquire 0 Writer, CounterAccess 0 Writer Available, SpinLockRelease 0 Writer,
       CounterAccess 0 Writer SlotIndex, MemoryCopy Writer 0 0, CounterAccess 0 Writer Increment,
       RequestCompleteWithInformation 1 STATUS_SUCCESS 4096])"
proof -
  have rec: "reconcile (ring_config 8 4096 2) 1 (0, 0) = (1, 1)"
    by (simp add: reconcile_def ring_config_def hw_count_mask_def loop_count_def word_sless_alt)
  have en: "scenario_regs 0 0 1 (CSR_PCIE_MSI_ENABLE_ADDR scenario_csr) = 3"
    "scenario_regs 0 0 1 (0x2000 + PCIE_DMA_WRITER_TABLE_LOOP_STATUS_OFFSET scenario_csr) = 1"
    by (simp_all add: scenario_regs_def scenario_csr_def)
  have rd: "litepciedrv_ChannelRead (ring_config 8 4096 2) fw_ok
      ((scenario_chan 4096)\<lparr>dma := (dma (scenario_chan 4096))\<lparr>readRequest := Some 1,
          readRemainingBytes := 4096, writer_hw_count := 1, writer_hw_count_last := 1\<rparr>\<rparr>) 1 4096 =
     ((scenario_chan 4096)\<lparr>dma := (dma (scenario_chan 4096))\<lparr>
           writer_hw_count := 1, writer_hw_count_last := 1, writer_sw_count := 1\<rparr>\<rparr>,
      [SpinLockAcquire 0 Writer, CounterAccess 0 Writer Available, SpinLockRelease 0 Writer,
       CounterAccess 0 Writer SlotIndex, MemoryCopy Writer 0 0, CounterAccess 0 Writer Increment,
       RequestCompleteWithInformation 1 STATUS_SUCCESS 4096])"
    by (simp add: litepciedrv_ChannelRead_def fw_ok_def NT_SUCCESS_def STATUS_SUCCESS_def
        scenario_chan_fields ring_config_def transfer_loop.simps slot_index_def word_sless_alt
        word_sle_eq smod_int_alt_def)
  show ?thesis
    using rd by (simp add: litepcie_EvtDpc_def Let_def scenario_dev_def parked_chan_def en rec
        dpc_reader_def dpc_writer_def scenario_chan_fields)
qed

text \<open>
  C8, as stated, fails: fulfillment invoked with a new request while another one is
  parked overwrites the parked one. Read request 1 is parked; \<open>litepciedrv_ChannelRead\<close> with
  request 2 and no data available leaves request 2 parked, and request 1 is neither
  completed nor kept.
\<close>

theorem parked_request_clobbered_counterexample:
  "readRequest (dma parked_chan) = Some 1 \<and>
   readRequest (dma (fst (litepciedrv_ChannelRead (ring_config 8 4096 2) fw_ok parked_chan 2 4096))) = Some 2 \<and>
   completions (snd (litepciedrv_ChannelRead (ring_config 8 4096 2) fw_ok parked_chan 2 4096)) = []"
  by (simp add: parked_chan_def litepciedrv_ChannelRead_def fw_ok_def NT_SUCCESS_def STATUS_SUCCESS_def
      scenario_chan_def cleared_dma_chan_def ring_config_def transfer_loop.simps word_sless_alt
      word_sle_eq)

text \<open>
  C8, amended. Each direction of a channel has one field for a parked request, so at
  most one request is parked per channel and direction. \<open>litepciedrv_ChannelRead\<close> with request \<open>r\<close>
  leaves the read field empty or holding \<open>r\<close> (or leaves the channel unchanged when the
  memory of \<open>r\<close> cannot be retrieved) and does not touch the write field;
  \<open>litepciedrv_ChannelWrite\<close> is the mirror. The core has no guard for a request that is already
  parked: keeping it from being replaced is left to the dispatcher. The deferred pass
  re-invokes fulfillment only with the parked request itself: after it, in every
  channel and direction, the field for the parked request is unchanged, or it is empty
  and the request it held was completed during the pass with \<open>STATUS_SUCCESS\<close> and a
  positive byte count. The interrupt handler, start and stop do not change the parked
  requests.
\<close>

theorem pending_request_slot:
  "(readRequest (dma (fst (litepciedrv_ChannelRead cfg fw c request len))) = None \<or>
    readRequest (dma (fst (litepciedrv_ChannelRead cfg fw c request len))) = Some request \<or>
    (\<not> NT_SUCCESS (RetrieveOutputMemory fw request) \<and> fst (litepciedrv_ChannelRead cfg fw c request len) = c)) \<and>
   writeRequest (dma (fst (litepciedrv_ChannelRead cfg fw c request len))) = writeRequest (dma c) \<and>
   (writeRequest (dma (fst (litepciedrv_ChannelWrite cfg fw c request len))) = None \<or>
    writeRequest (dma (fst (litepciedrv_ChannelWrite cfg fw c request len))) = Some request \<or>
    (\<not> NT_SUCCESS (RetrieveInputMemory fw request) \<and> fst (litepciedrv_ChannelWrite cfg fw c request len) = c)) \<and>
   readRequest (dma (fst (litepciedrv_ChannelWrite cfg fw c request len))) = readRequest (dma c) \<and>
   list_all2 (\<lambda>c c'. parked_resolved c c' (snd (litepcie_EvtDpc cfg csr fw regs dev)))
     (chan dev) (chan (fst (litepcie_EvtDpc cfg csr fw regs dev))) \<and>
   chan (fst (snd (litepcie_EvtIsr csr regs dev))) = chan dev \<and>
   (\<forall>dev' evs. litepcie_dma_writer_start cfg csr dev ix = Some (dev', evs) \<longrightarrow>
      map parked (chan dev') = map parked (chan dev)) \<and>
   (\<forall>dev' evs. litepcie_dma_reader_start cfg csr dev ix = Some (dev', evs) \<longrightarrow>
      map parked (chan dev') = map parked (chan dev)) \<and>
   (\<forall>dev' evs. litepcie_dma_writer_stop csr dev ix = Some (dev', evs) \<longrightarrow>
      map parked (chan dev') = map parked (chan dev)) \<and>
   (\<forall>dev' evs. litepcie_dma_reader_stop csr dev ix = Some (dev', evs) \<longrightarrow>
      map parked (chan dev') = map parked (chan dev))"
proof (intro conjI allI impI)
  show "readRequest (dma (fst (litepciedrv_ChannelRead cfg fw c request len))) = None \<or>
    readRequest (dma (fst (litepciedrv_ChannelRead cfg fw c request len))) = Some request \<or>
    (\<not> NT_SUCCESS (RetrieveOutputMemory fw request) \<and> fst (litepciedrv_ChannelRead cfg fw c request len) = c)"
    by (rule ChannelRead_request)
  show "writeRequest (dma (fst (litepciedrv_ChannelWrite cfg fw c request len))) = None \<or>
    writeRequest (dma (fst (litepciedrv_ChannelWrite cfg fw c request len))) = Some request \<or>
    (\<not> NT_SUCCESS (RetrieveInputMemory fw request) \<and> fst (litepciedrv_ChannelWrite cfg fw c request len) = c)"
    by (rule ChannelWrite_request)
  show "writeRequest (dma (fst (litepciedrv_ChannelRead cfg fw c request len))) = writeRequest (dma c)"
    by (rule ChannelRead_counters)
  show "readRequest (dma (fst (litepciedrv_ChannelWrite cfg fw c request len))) = readRequest (dma c)"
    by (rule ChannelWrite_counters)
  show "list_all2 (\<lambda>c c'. parked_resolved c c' (snd (litepcie_EvtDpc cfg csr fw regs dev)))
     (chan dev) (chan (fst (litepcie_EvtDpc cfg csr fw regs dev)))"
    by (rule EvtDpc_resolves)
  show "chan (fst (snd (litepcie_EvtIsr csr regs dev))) = chan dev"
    by (simp add: litepcie_EvtIsr_def Let_def)
qed (erule start_stop_parked)+

theorem pending_request_slot_witness:
  "NT_SUCCESS (RetrieveOutputMemory fw_ok 1) \<and>
   readRequest (dma parked_chan) = Some 1 \<and>
   (readRequest (dma (fst (litepciedrv_ChannelRead (ring_config 8 4096 2) fw_ok parked_chan 1 4096))) = None \<or>
    readRequest (dma (fst (litepciedrv_ChannelRead (ring_config 8 4096 2) fw_ok parked_chan 1 4096))) = Some 1) \<and>
   list_all2 (\<lambda>c c'. parked_resolved c c'
        (snd (litepcie_EvtDpc (ring_config 8 4096 2) scenario_csr fw_ok (scenario_regs 0 0 1)
           (scenario_dev parked_chan 1))))
     (chan (scenario_dev parked_chan 1))
     (chan (fst (litepcie_EvtDpc (ring_config 8 4096 2) scenario_csr fw_ok (scenario_regs 0 0 1)
        (scenario_dev parked_chan 1)))) \<and>
   map parked (chan (fst (litepcie_EvtDpc (ring_config 8 4096 2) scenario_csr fw_ok
        (scenario_regs 0 0 1) (scenario_dev parked_chan 1)))) = [(None, None)] \<and>
   completions (snd (litepcie_EvtDpc (ring_config 8 4096 2) scenario_csr fw_ok
        (scenario_regs 0 0 1) (scenario_dev parked_chan 1))) = [(1, STATUS_SUCCESS, 4096)] \<and>
   litepcie_dma_writer_stop scenario_csr (scenario_dev parked_chan 1) 0 \<noteq> None \<and>
   map parked (chan (fst (the (litepcie_dma_writer_stop scenario_csr (scenario_dev parked_chan 1) 0)))) =
     map parked (chan (scenario_dev parked_chan 1))"
proof -
  have ok: "NT_SUCCESS (RetrieveOutputMemory fw_ok 1)"
    by (simp add: fw_ok_def NT_SUCCESS_def STATUS_SUCCESS_def)
  have p: "readRequest (dma parked_chan) = Some 1"
    by (simp add: parked_chan_def)
  obtain dev' evs where stop:
    "litepcie_dma_writer_stop scenario_csr (scenario_dev parked_chan 1) 0 = Some (dev', evs)"
    by (simp add: litepcie_dma_writer_stop_def scenario_dev_def Let_def)
  note slot = pending_request_slot [of "ring_config 8 4096 2" fw_ok parked_chan 1 4096
      scenario_csr "scenario_regs 0 0 1" "scenario_dev parked_chan 1" 0]
  from slot ok have "readRequest (dma (fst (litepciedrv_ChannelRead (ring_config 8 4096 2) fw_ok parked_chan 1 4096))) = None \<or>
    readRequest (dma (fst (litepciedrv_ChannelRead (ring_config 8 4096 2) fw_ok parked_chan 1 4096))) = Some 1"
    by blast
  moreover from slot have "list_all2 (\<lambda>c c'. parked_resolved c c'
        (snd (litepcie_EvtDpc (ring_config 8 4096 2) scenario_csr fw_ok (scenario_regs 0 0 1)
           (scenario_dev parked_chan 1))))
     (chan (scenario_dev parked_chan 1))
     (chan (fst (litepcie_EvtDpc (ring_config 8 4096 2) scenario_csr fw_ok (scenario_regs 0 0 1)
        (scenario_dev parked_chan 1))))"
    by blast
  moreover from slot stop have "map parked (chan dev') = map parked (chan (scenario_dev parked_chan 1))"
    by blast
  moreover have "map parked (chan (fst (litepcie_EvtDpc (ring_config 8 4096 2) scenario_csr fw_ok
        (scenario_regs 0 0 1) (scenario_dev parked_chan 1)))) = [(None, None)]"
    "completions (snd (litepcie_EvtDpc (ring_config 8 4096 2) scenario_csr fw_ok
        (scenario_regs 0 0 1) (scenario_dev parked_chan 1))) = [(1, STATUS_SUCCESS, 4096)]"
    by (simp_all add: dpc_resolves_parked_read parked_def scenario_chan_fields)
  ultimately show ?thesis using ok p stop by simp
qed

text \<open>
  C7. The top-half interrupt handler. When the interrupt vector register reads zero,
  the handler returns \<open>FALSE\<close> (not handled), leaves the device context (so the pending
  mask) unchanged and does nothing else. When it reads a nonzero value, the handler
  ORs that value into the pending mask, writes it to the clear register, queues the
  DPC and returns \<open>TRUE\<close>.
\<close>

theorem isr_claims_or_declines:
  "(regs (CSR_PCIE_MSI_VECTOR_ADDR csr) = 0 \<longrightarrow>
      litepcie_EvtIsr csr regs dev = (False, dev, [])) \<and>
   (regs (CSR_PCIE_MSI_VECTOR_ADDR csr) \<noteq> 0 \<longrightarrow>
      litepcie_EvtIsr csr regs dev =
        (True, dev\<lparr>irqs_pending := irqs_pending dev OR regs (CSR_PCIE_MSI_VECTOR_ADDR csr)\<rparr>,
         [RegWritel (CSR_PCIE_MSI_CLEAR_ADDR csr) (regs (CSR_PCIE_MSI_VECTOR_ADDR csr)),
          InterruptQueueDpcForIsr]))"
  by (simp add: litepcie_EvtIsr_def Let_def)

theorem isr_claims_or_declines_witness:
  "scenario_regs 0 0 0 (CSR_PCIE_MSI_VECTOR_ADDR scenario_csr) = 0 \<and>
   litepcie_EvtIsr scenario_csr (scenario_regs 0 0 0) (scenario_dev (scenario_chan 4096) 1) =
     (False, scenario_dev (scenario_chan 4096) 1, []) \<and>
   scenario_regs 6 0 0 (CSR_PCIE_MSI_VECTOR_ADDR scenario_csr) \<noteq> 0 \<and>
   litepcie_EvtIsr scenario_csr (scenario_regs 6 0 0) (scenario_dev (scenario_chan 4096) 1) =
     (True, scenario_dev (scenario_chan 4096) 7,
      [RegWritel 0x1804 6, InterruptQueueDpcForIsr])"
proof -
  have zero: "scenario_regs 0 0 0 (CSR_PCIE_MSI_VECTOR_ADDR scenario_csr) = 0"
    by (simp add: scenario_regs_def scenario_csr_def)
  have six: "scenario_regs 6 0 0 (CSR_PCIE_MSI_VECTOR_ADDR scenario_csr) = 6"
    by (simp add: scenario_regs_def scenario_csr_def)
  have clear: "CSR_PCIE_MSI_CLEAR_ADDR scenario_csr = 0x1804"
    by (simp add: scenario_csr_def)
  show ?thesis
    using isr_claims_or_declines [of "scenario_regs 0 0 0" scenario_csr "scenario_dev (scenario_chan 4096) 1"]
      isr_claims_or_declines [of "scenario_regs 6 0 0" scenario_csr "scenario_dev (scenario_chan 4096) 1"]
    by (simp add: zero six clear scenario_dev_def)
qed

section \<open>Scenario: a write request parks and an interrupt completes it\<close>

lemma copies_append: "copies (xs @ ys) = copies xs @ copies ys"
  by (induction xs rule: copies.induct) simp_all

text \<open>
  C5. The end-to-end scenario, for every coalescing interval. Buffer size 4096, ring
  depth 8, reader counters at zero. A write request of length 12288 whose memory is
  retrieved takes and releases the lock once and parks with 12288 remaining bytes.
  A deferred pass with the reader interrupt pending and the reader loop status
  reading 5 reconciles the reader \<open>hw_count\<close> to 5 and re-invokes fulfillment for the
  parked request: three buffers are copied (offsets 0, 4096, 8192 into slots 0, 1, 2),
  the request is completed with 12288 bytes, and the channel is left with
  \<open>sw_count = 3\<close>, \<open>hw_count = 5\<close> and no parked request.
\<close>

theorem write_parks_then_interrupt_completes:
  "litepciedrv_ChannelWrite (ring_config 8 4096 per_irq) fw_ok (scenario_chan 4096) 9 12288 =
     ((scenario_chan 4096)\<lparr>dma := (dma (scenario_chan 4096))\<lparr>writeRequest := Some 9,
         writeRemainingBytes := 12288\<rparr>\<rparr>,
      [SpinLockAcquire 0 Reader, CounterAccess 0 Reader Available, SpinLockRelease 0 Reader]) \<and>
   (case litepcie_EvtDpc (ring_config 8 4096 per_irq) scenario_csr fw_ok (scenario_regs 0 5 0)
           (scenario_dev ((scenario_chan 4096)\<lparr>dma := (dma (scenario_chan 4096))\<lparr>
              writeRequest := Some 9, writeRemainingBytes := 12288\<rparr>\<rparr>) 2) of
      (dev', evs) \<Rightarrow>
        chan dev' = [(scenario_chan 4096)\<lparr>dma := (dma (scenario_chan 4096))\<lparr>
           reader_hw_count := 5, reader_hw_count_last := 5, reader_sw_count := 3\<rparr>\<rparr>] \<and>
        irqs_pending dev' = 0 \<and>
        completions evs = [(9, STATUS_SUCCESS, 12288)] \<and>
        copies evs = [(Reader, 0, 0), (Reader, 4096, 1), (Reader, 8192, 2)])"
proof -
  have park: "litepciedrv_ChannelWrite (ring_config 8 4096 per_irq) fw_ok (scenario_chan 4096) 9 12288 =
     ((scenario_chan 4096)\<lparr>dma := (dma (scenario_chan 4096))\<lparr>writeRequest := Some 9,
         writeRemainingBytes := 12288\<rparr>\<rparr>,
      [SpinLockAcquire 0 Reader, CounterAccess 0 Reader Available, SpinLockRelease 0 Reader])"
    by (simp add: litepciedrv_ChannelWrite_def fw_ok_def NT_SUCCESS_def STATUS_SUCCESS_def scenario_chan_def
        cleared_dma_chan_def ring_config_def transfer_loop.simps word_sless_alt word_sle_eq)
  have rec: "reconcile (ring_config 8 4096 per_irq) 5 (0, 0) = (5, 5)"
    by (simp add: reconcile_def ring_config_def hw_count_mask_def loop_count_def word_sless_alt)
  have loop: "case transfer_loop (ring_config 8 4096 per_irq) 0 Reader 5 12288 (0, 0, 0, []) of
     (sw, b, ov, es) \<Rightarrow> sw = 3 \<and> b = 12288 \<and> completions es = [] \<and>
       copies es = [(Reader, 0, 0), (Reader, 4096, 1), (Reader, 8192, 2)]"
    by (simp add: ring_config_def transfer_loop.simps slot_index_def word_sless_alt word_sle_eq
        smod_int_alt_def)
  obtain sw b ov es where L:
    "transfer_loop (ring_config 8 4096 per_irq) 0 Reader 5 12288 (0, 0, 0, []) = (sw, b, ov, es)"
    by (cases "transfer_loop (ring_config 8 4096 per_irq) 0 Reader 5 12288 (0, 0, 0, [])") auto
  have res: "sw = 3" "b = 12288" "completions es = []"
    "copies es = [(Reader, 0, 0), (Reader, 4096, 1), (Reader, 8192, 2)]"
    using loop by (simp_all add: L)
  define c1 where "c1 = (scenario_chan 4096)\<lparr>dma := (dma (scenario_chan 4096))\<lparr>
      writeRequest := Some 9, writeRemainingBytes := 12288,
      reader_hw_count := 5, reader_hw_count_last := 5\<rparr>\<rparr>"
  have wr: "litepciedrv_ChannelWrite (ring_config 8 4096 per_irq) fw_ok c1 9 12288 =
      ((scenario_chan 4096)\<lparr>dma := (dma (scenario_chan 4096))\<lparr>
           reader_hw_count := 5, reader_hw_count_last := 5, reader_sw_count := 3\<rparr>\<rparr>,
       es @ (if 0 < ov then [TraceOverflow Reader ov] else []) @
         [RequestCompleteWithInformation 9 STATUS_SUCCESS 12288])"
    using L by (simp add: litepciedrv_ChannelWrite_def c1_def fw_ok_def NT_SUCCESS_def STATUS_SUCCESS_def
        scenario_chan_fields res word_sle_eq)
  have rd: "dpc_reader (ring_config 8 4096 per_irq) scenario_csr fw_ok (scenario_regs 0 5 0) 2
      ((scenario_chan 4096)\<lparr>dma := (dma (scenario_chan 4096))\<lparr>
          writeRequest := Some 9, writeRemainingBytes := 12288\<rparr>\<rparr>, 0, []) =
     ((scenario_chan 4096)\<lparr>dma := (dma (scenario_chan 4096))\<lparr>
           reader_hw_count := 5, reader_hw_count_last := 5, reader_sw_count := 3\<rparr>\<rparr>,
      2,
      [SpinLockAcquire 0 Reader, CounterAccess 0 Reader Reconcile, SpinLockRelease 0 Reader] @
       es @ (if 0 < ov then [TraceOverflow Reader ov] else []) @
         [RequestCompleteWithInformation 9 STATUS_SUCCESS 12288])"
    using wr by (simp add: dpc_reader_def Let_def scenario_regs_def scenario_csr_def
        scenario_chan_fields rec c1_def)
  have en: "scenario_regs 0 5 0 (CSR_PCIE_MSI_ENABLE_ADDR scenario_csr) = 3"
    by (simp add: scenario_regs_def scenario_csr_def)
  have dpc: "litepcie_EvtDpc (ring_config 8 4096 per_irq) scenario_csr fw_ok (scenario_regs 0 5 0)
      (scenario_dev ((scenario_chan 4096)\<lparr>dma := (dma (scenario_chan 4096))\<lparr>
          writeRequest := Some 9, writeRemainingBytes := 12288\<rparr>\<rparr>) 2) =
     (\<lparr>chan = [(scenario_chan 4096)\<lparr>dma := (dma (scenario_chan 4096))\<lparr>
           reader_hw_count := 5, reader_hw_count_last := 5, reader_sw_count := 3\<rparr>\<rparr>],
       irqs_requested = 3, irqs_pending = 0\<rparr>,
      [SpinLockAcquire 0 Reader, CounterAccess 0 Reader Reconcile, SpinLockRelease 0 Reader] @
       es @ (if 0 < ov then [TraceOverflow Reader ov] else []) @
         [RequestCompleteWithInformation 9 STATUS_SUCCESS 12288])"
    by (simp add: litepcie_EvtDpc_def Let_def scenario_dev_def en rd dpc_writer_def
        scenario_chan_fields)
  show ?thesis
    by (simp add: park dpc completions_append copies_append res)
qed

section \<open>The counter invariant\<close>

lemma sle_trans: "(a :: INT64) \<le>s b \<Longrightarrow> b \<le>s c \<Longrightarrow> a \<le>s c"
  by (simp add: word_sle_eq)

lemma ChannelRead_inv:
  assumes "sw_le_hw c"
  shows "sw_le_hw (fst (litepciedrv_ChannelRead cfg fw c request len))"
    and "last_synced c \<Longrightarrow> last_synced (fst (litepciedrv_ChannelRead cfg fw c request len))"
    and "hw_in_range c \<Longrightarrow> hw_in_range (fst (litepciedrv_ChannelRead cfg fw c request len))"
  using assms ChannelRead_sw [of c cfg fw request len]
  by (simp_all add: sw_le_hw_def last_synced_def hw_in_range_def ChannelRead_counters)

lemma ChannelWrite_inv:
  assumes "sw_le_hw c"
  shows "sw_le_hw (fst (litepciedrv_ChannelWrite cfg fw c request len))"
    and "last_synced c \<Longrightarrow> last_synced (fst (litepciedrv_ChannelWrite cfg fw c request len))"
    and "hw_in_range c \<Longrightarrow> hw_in_range (fst (litepciedrv_ChannelWrite cfg fw c request len))"
  using assms ChannelWrite_sw [of c cfg fw request len]
  by (simp_all add: sw_le_hw_def last_synced_def hw_in_range_def ChannelWrite_counters)

lemma dpc_reader_inv:
  assumes pow2: "DMA_BUFFER_COUNT cfg = 2 ^ k" and k: "k < 16"
    and inv: "sw_le_hw c" "last_synced c" "hw_in_range c"
  shows "sw_le_hw (fst (dpc_reader cfg csr fw regs irq_vector (c, m, e))) \<and>
    last_synced (fst (dpc_reader cfg csr fw regs irq_vector (c, m, e))) \<and>
    count_ok (writer_hw_count (dma (fst (dpc_reader cfg csr fw regs irq_vector (c, m, e)))))"
proof (cases "irq_vector AND push_bit (unat (reader_interrupt (dma c))) 1 \<noteq> 0")
  case False
  then show ?thesis using inv by (simp add: dpc_reader_def hw_in_range_def)
next
  case True
  define counts where "counts = reconcile cfg
      (regs (base (dma c) + PCIE_DMA_READER_TABLE_LOOP_STATUS_OFFSET csr))
      (reader_hw_count (dma c), reader_hw_count_last (dma c))"
  define c1 where "c1 = c\<lparr>dma := (dma c)\<lparr>reader_hw_count := fst counts,
      reader_hw_count_last := snd counts\<rparr>\<rparr>"
  have same: "reader_hw_count_last (dma c) = reader_hw_count (dma c)"
    using inv(2) by (simp add: last_synced_def)
  have ok: "count_ok (reader_hw_count (dma c))" using inv(3) by (simp add: hw_in_range_def)
  have up: "reader_hw_count (dma c) \<le>s fst counts"
    unfolding counts_def same by (rule reconcile_step_signed [OF pow2 k ok])
  have diag: "snd counts = fst counts" unfolding counts_def by (rule reconcile_diag)
  have "reader_sw_count (dma c) \<le>s fst counts"
    using inv(1) up by (auto simp add: sw_le_hw_def intro: sle_trans)
  then have i1: "sw_le_hw c1" using inv(1) by (simp add: c1_def sw_le_hw_def)
  have i2: "last_synced c1" using inv(2) diag by (simp add: c1_def last_synced_def)
  have i3: "count_ok (writer_hw_count (dma c1))" using inv(3) by (simp add: c1_def hw_in_range_def)
  have res: "fst (dpc_reader cfg csr fw regs irq_vector (c, m, e)) =
      (case writeRequest (dma c1) of None \<Rightarrow> c1
       | Some request \<Rightarrow> fst (litepciedrv_ChannelWrite cfg fw c1 request (writeRemainingBytes (dma c1))))"
    using True by (simp add: dpc_reader_def Let_def c1_def counts_def split: option.splits)
  show ?thesis
    unfolding res using i1 i2 i3 ChannelWrite_inv(1,2) [OF i1]
    by (simp add: ChannelWrite_counters split: option.splits)
qed

lemma dpc_writer_inv:
  assumes pow2: "DMA_BUFFER_COUNT cfg = 2 ^ k" and k: "k < 16"
    and inv: "sw_le_hw c" "last_synced c" "count_ok (writer_hw_count (dma c))"
  shows "sw_le_hw (fst (dpc_writer cfg csr fw regs irq_vector (c, m, e))) \<and>
    last_synced (fst (dpc_writer cfg csr fw regs irq_vector (c, m, e)))"
proof (cases "irq_vector AND push_bit (unat (writer_interrupt (dma c))) 1 \<noteq> 0")
  case False
  then show ?thesis using inv by (simp add: dpc_writer_def)
next
  case True
  define counts where "counts = reconcile cfg
      (regs (base (dma c) + PCIE_DMA_WRITER_TABLE_LOOP_STATUS_OFFSET csr))
      (writer_hw_count (dma c), writer_hw_count_last (dma c))"
  define c1 where "c1 = c\<lparr>dma := (dma c)\<lparr>writer_hw_count := fst counts,
      writer_hw_count_last := snd counts\<rparr>\<rparr>"
  have same: "writer_hw_count_last (dma c) = writer_hw_count (dma c)"
    using inv(2) by (simp add: last_synced_def)
  have up: "writer_hw_count (dma c) \<le>s fst counts"
    unfolding counts_def same by (rule reconcile_step_signed [OF pow2 k inv(3)])
  have diag: "snd counts = fst counts" unfolding counts_def by (rule reconcile_diag)
  have "writer_sw_count (dma c) \<le>s fst counts"
    using inv(1) up by (auto simp add: sw_le_hw_def intro: sle_trans)
  then have i1: "sw_le_hw c1" using inv(1) by (simp add: c1_def sw_le_hw_def)
  have i2: "last_synced c1" using inv(2) diag by (simp add: c1_def last_synced_def)
  have res: "fst (dpc_writer cfg csr fw regs irq_vector (c, m, e)) =
      (case readRequest (dma c1) of None \<Rightarrow> c1
       | Some request \<Rightarrow> fst (litepciedrv_ChannelRead cfg fw c1 request (readRemainingBytes (dma c1))))"
    using True by (simp add: dpc_writer_def Let_def c1_def counts_def split: option.splits)
  show ?thesis
    unfolding res using i1 i2 ChannelRead_inv(1,2) [OF i1]
    by (simp split: option.splits)
qed

lemma dpc_chan_inv:
  assumes pow2: "DMA_BUFFER_COUNT cfg = 2 ^ k" and k: "k < 16"
    and inv: "sw_le_hw c" "last_synced c" "hw_in_range c"
  shows "sw_le_hw (dpc_chan cfg csr fw regs irq_vector c) \<and>
    last_synced (dpc_chan cfg csr fw regs irq_vector c)"
proof -
  obtain c1 m1 e1 where r: "dpc_reader cfg csr fw regs irq_vector (c, 0, []) = (c1, m1, e1)"
    by (cases "dpc_reader cfg csr fw regs irq_vector (c, 0, [])") auto
  have "sw_le_hw c1 \<and> last_synced c1 \<and> count_ok (writer_hw_count (dma c1))"
    using dpc_reader_inv [OF pow2 k inv, of csr fw regs irq_vector 0 "[]"] by (simp add: r)
  then show ?thesis
    using dpc_writer_inv [OF pow2 k, of c1 csr fw regs irq_vector m1 e1]
    by (simp add: dpc_chan_def r)
qed

lemma EvtDpc_inv:
  assumes pow2: "DMA_BUFFER_COUNT cfg = 2 ^ k" and k: "k < 16"
    and inv: "list_all sw_le_hw (chan dev)" "list_all last_synced (chan dev)"
      "list_all hw_in_range (chan dev)"
  shows "list_all sw_le_hw (chan (fst (litepcie_EvtDpc cfg csr fw regs dev))) \<and>
    list_all last_synced (chan (fst (litepcie_EvtDpc cfg csr fw regs dev)))"
  using inv dpc_chan_inv [OF pow2 k]
  by (simp add: EvtDpc_chans list_all_iff)

lemma list_all_update:
  "list_all P xs \<Longrightarrow> P x \<Longrightarrow> list_all P (xs[i := x])"
  using set_update_subset_insert [of xs i x] by (auto simp add: list_all_iff)

lemma reset_inv:
  assumes "sw_le_hw c" "last_synced c"
  shows "sw_le_hw (c\<lparr>dma := (dma c)\<lparr>writer_hw_count := 0, writer_hw_count_last := 0,
            writer_sw_count := 0\<rparr>\<rparr>)"
    and "last_synced (c\<lparr>dma := (dma c)\<lparr>writer_hw_count := 0, writer_hw_count_last := 0,
            writer_sw_count := 0\<rparr>\<rparr>)"
    and "sw_le_hw (c\<lparr>dma := (dma c)\<lparr>reader_hw_count := 0, reader_hw_count_last := 0,
            reader_sw_count := 0\<rparr>\<rparr>)"
    and "last_synced (c\<lparr>dma := (dma c)\<lparr>reader_hw_count := 0, reader_hw_count_last := 0,
            reader_sw_count := 0\<rparr>\<rparr>)"
  using assms by (simp_all add: sw_le_hw_def last_synced_def)

lemma start_stop_inv:
  assumes inv: "list_all sw_le_hw (chan dev)" "list_all last_synced (chan dev)"
  shows "litepcie_dma_writer_start cfg csr dev ix = Some (dev', evs) \<Longrightarrow>
      list_all sw_le_hw (chan dev') \<and> list_all last_synced (chan dev')"
    and "litepcie_dma_reader_start cfg csr dev ix = Some (dev', evs) \<Longrightarrow>
      list_all sw_le_hw (chan dev') \<and> list_all last_synced (chan dev')"
    and "litepcie_dma_writer_stop csr dev ix = Some (dev', evs) \<Longrightarrow>
      list_all sw_le_hw (chan dev') \<and> list_all last_synced (chan dev')"
    and "litepcie_dma_reader_stop csr dev ix = Some (dev', evs) \<Longrightarrow>
      list_all sw_le_hw (chan dev') \<and> list_all last_synced (chan dev')"
proof -
  have at: "unat ix < length (chan dev) \<Longrightarrow>
      sw_le_hw (chan dev ! unat ix) \<and> last_synced (chan dev ! unat ix)"
    using inv by (simp add: list_all_length)
  show "litepcie_dma_writer_start cfg csr dev ix = Some (dev', evs) \<Longrightarrow>
      list_all sw_le_hw (chan dev') \<and> list_all last_synced (chan dev')"
    using inv at
    by (auto simp add: litepcie_dma_writer_start_def Let_def reset_inv
        intro!: list_all_update split: if_splits option.splits)
  show "litepcie_dma_reader_start cfg csr dev ix = Some (dev', evs) \<Longrightarrow>
      list_all sw_le_hw (chan dev') \<and> list_all last_synced (chan dev')"
    using inv at
    by (auto simp add: litepcie_dma_reader_start_def Let_def reset_inv
        intro!: list_all_update split: if_splits option.splits)
  show "litepcie_dma_writer_stop csr dev ix = Some (dev', evs) \<Longrightarrow>
      list_all sw_le_hw (chan dev') \<and> list_all last_synced (chan dev')"
    using inv at
    by (auto simp add: litepcie_dma_writer_stop_def Let_def reset_inv
        intro!: list_all_update split: if_splits option.splits)
  show "litepcie_dma_reader_stop csr dev ix = Some (dev', evs) \<Longrightarrow>
      list_all sw_le_hw (chan dev') \<and> list_all last_synced (chan dev')"
    using inv at
    by (auto simp add: litepcie_dma_reader_stop_def Let_def reset_inv
        intro!: list_all_update split: if_splits option.splits)
qed

text \<open>
  C3. \<open>sw_count \<le> hw_count\<close> in both directions is an invariant of the core. The ring
  depth is a power of two \<open>2^k\<close> with \<open>k < 16\<close>; every channel of the device satisfies
  \<open>sw_count \<le> hw_count\<close> and \<open>hw_count_last = hw_count\<close> in both directions, and its
  hardware counts are in the range where a reconciliation cannot overflow the signed
  64-bit counter. Then every operation keeps \<open>sw_count \<le> hw_count\<close> and
  \<open>hw_count_last = hw_count\<close> on every channel: writer and reader start, writer and
  reader stop (which reset the three counters to zero), the deferred interrupt pass
  (reconciliation followed by fulfillment of a parked request), the top-half handler
  (which leaves the channels alone), \<open>litepciedrv_ChannelRead\<close> and \<open>litepciedrv_ChannelWrite\<close> on any channel of
  the device. The channel state after the \<open>memset\<close> of device open satisfies both.
  Operations are taken one at a time.
\<close>

theorem sw_count_le_hw_count_preserved:
  assumes pow2: "DMA_BUFFER_COUNT cfg = 2 ^ k" and k: "k < 16"
    and inv: "list_all sw_le_hw (chan dev)" "list_all last_synced (chan dev)"
    and range: "list_all hw_in_range (chan dev)"
  shows "(\<forall>dev' evs. litepcie_dma_writer_start cfg csr dev ix = Some (dev', evs) \<longrightarrow>
        list_all sw_le_hw (chan dev') \<and> list_all last_synced (chan dev')) \<and>
    (\<forall>dev' evs. litepcie_dma_reader_start cfg csr dev ix = Some (dev', evs) \<longrightarrow>
        list_all sw_le_hw (chan dev') \<and> list_all last_synced (chan dev')) \<and>
    (\<forall>dev' evs. litepcie_dma_writer_stop csr dev ix = Some (dev', evs) \<longrightarrow>
        list_all sw_le_hw (chan dev') \<and> list_all last_synced (chan dev')) \<and>
    (\<forall>dev' evs. litepcie_dma_reader_stop csr dev ix = Some (dev', evs) \<longrightarrow>
        list_all sw_le_hw (chan dev') \<and> list_all last_synced (chan dev')) \<and>
    list_all sw_le_hw (chan (fst (litepcie_EvtDpc cfg csr fw regs dev))) \<and>
    list_all last_synced (chan (fst (litepcie_EvtDpc cfg csr fw regs dev))) \<and>
    chan (fst (snd (litepcie_EvtIsr csr regs dev))) = chan dev \<and>
    list_all (\<lambda>c. sw_le_hw (fst (litepciedrv_ChannelRead cfg fw c request len)) \<and>
                  last_synced (fst (litepciedrv_ChannelRead cfg fw c request len)) \<and>
                  sw_le_hw (fst (litepciedrv_ChannelWrite cfg fw c request len)) \<and>
                  last_synced (fst (litepciedrv_ChannelWrite cfg fw c request len))) (chan dev) \<and>
    sw_le_hw \<lparr>index = i, block_size = bs, dma = cleared_dma_chan\<rparr> \<and>
    last_synced \<lparr>index = i, block_size = bs, dma = cleared_dma_chan\<rparr>"
proof (intro conjI allI impI)
  show "list_all (\<lambda>c. sw_le_hw (fst (litepciedrv_ChannelRead cfg fw c request len)) \<and>
                  last_synced (fst (litepciedrv_ChannelRead cfg fw c request len)) \<and>
                  sw_le_hw (fst (litepciedrv_ChannelWrite cfg fw c request len)) \<and>
                  last_synced (fst (litepciedrv_ChannelWrite cfg fw c request len))) (chan dev)"
    using inv by (simp add: list_all_iff ChannelRead_inv ChannelWrite_inv)
  show "chan (fst (snd (litepcie_EvtIsr csr regs dev))) = chan dev"
    by (simp add: litepcie_EvtIsr_def Let_def)
  show "sw_le_hw \<lparr>index = i, block_size = bs, dma = cleared_dma_chan\<rparr>"
    by (simp add: sw_le_hw_def cleared_dma_chan_def)
  show "last_synced \<lparr>index = i, block_size = bs, dma = cleared_dma_chan\<rparr>"
    by (simp add: last_synced_def cleared_dma_chan_def)
  show "list_all sw_le_hw (chan (fst (litepcie_EvtDpc cfg csr fw regs dev)))"
    "list_all last_synced (chan (fst (litepcie_EvtDpc cfg csr fw regs dev)))"
    using EvtDpc_inv [OF pow2 k inv range] by simp_all
qed (use start_stop_inv [OF inv] in blast)+

theorem sw_count_le_hw_count_preserved_witness:
  "DMA_BUFFER_COUNT (ring_config 8 4096 2) = 2 ^ 3 \<and>
   list_all sw_le_hw (chan (scenario_dev parked_chan 3)) \<and>
   list_all last_synced (chan (scenario_dev parked_chan 3)) \<and>
   list_all hw_in_range (chan (scenario_dev parked_chan 3)) \<and>
   list_all sw_le_hw (chan (fst (litepcie_EvtDpc (ring_config 8 4096 2) scenario_csr fw_ok
      (scenario_regs 0 5 2) (scenario_dev parked_chan 3)))) \<and>
   litepcie_dma_reader_stop scenario_csr (scenario_dev parked_chan 3) 0 \<noteq> None \<and>
   list_all sw_le_hw
     (chan (fst (the (litepcie_dma_reader_stop scenario_csr (scenario_dev parked_chan 3) 0)))) \<and>
   sw_le_hw (fst (litepciedrv_ChannelRead (ring_config 8 4096 2) fw_ok parked_chan 1 4096))"
proof -
  have pow2: "DMA_BUFFER_COUNT (ring_config 8 4096 2) = 2 ^ 3"
    by (simp add: ring_config_def)
  have k: "(3 :: nat) < 16" by simp
  have inv: "list_all sw_le_hw (chan (scenario_dev parked_chan 3))"
    "list_all last_synced (chan (scenario_dev parked_chan 3))"
    by (simp_all add: scenario_dev_def parked_chan_def scenario_chan_def cleared_dma_chan_def
        sw_le_hw_def last_synced_def)
  have range: "list_all hw_in_range (chan (scenario_dev parked_chan 3))"
    by (simp add: scenario_dev_def parked_chan_def scenario_chan_def cleared_dma_chan_def
        hw_in_range_def count_ok_def word_sle_eq word_sless_alt)
  obtain dev' evs where stop:
    "litepcie_dma_reader_stop scenario_csr (scenario_dev parked_chan 3) 0 = Some (dev', evs)"
    by (simp add: litepcie_dma_reader_stop_def scenario_dev_def Let_def)
  note pres = sw_count_le_hw_count_preserved [OF pow2 k inv range,
      of scenario_csr 0 fw_ok "scenario_regs 0 5 2" 1 4096]
  from pres have "list_all sw_le_hw (chan (fst (litepcie_EvtDpc (ring_config 8 4096 2)
      scenario_csr fw_ok (scenario_regs 0 5 2) (scenario_dev parked_chan 3))))"
    by blast
  moreover from pres stop have "list_all sw_le_hw (chan dev')" by blast
  moreover from pres have "list_all (\<lambda>c. sw_le_hw (fst (litepciedrv_ChannelRead (ring_config 8 4096 2) fw_ok c 1 4096)) \<and>
                  last_synced (fst (litepciedrv_ChannelRead (ring_config 8 4096 2) fw_ok c 1 4096)) \<and>
                  sw_le_hw (fst (litepciedrv_ChannelWrite (ring_config 8 4096 2) fw_ok c 1 4096)) \<and>
                  last_synced (fst (litepciedrv_ChannelWrite (ring_config 8 4096 2) fw_ok c 1 4096)))
       (chan (scenario_dev parked_chan 3))"
    by blast
  then have "sw_le_hw (fst (litepciedrv_ChannelRead (ring_config 8 4096 2) fw_ok parked_chan 1 4096))"
    by (simp add: scenario_dev_def)
  ultimately show ?thesis using pow2 inv range stop by simp
qed

section \<open>Lock discipline\<close>

lemma accesses_held_append:
  "accesses_held P want held (xs @ ys) =
   (accesses_held P want held xs \<and> accesses_held P want (foldl lock_step held xs) ys)"
  by (induction xs arbitrary: held) simp_all

lemma copies_unlocked_append:
  "copies_unlocked held (xs @ ys) =
   (copies_unlocked held xs \<and> copies_unlocked (foldl lock_step held xs) ys)"
  by (induction xs arbitrary: held) simp_all

lemma lock_discipline_append:
  "lock_discipline xs \<Longrightarrow> lock_discipline ys \<Longrightarrow> lock_discipline (xs @ ys)"
  by (simp add: lock_discipline_def accesses_held_append copies_unlocked_append)

lemma lock_discipline_blocks:
  "lock_discipline []"
  "lock_discipline [SpinLockAcquire ix d, CounterAccess ix d Available, SpinLockRelease ix d,
     CounterAccess ix d SlotIndex, MemoryCopy d b slot, CounterAccess ix d Increment]"
  "lock_discipline [SpinLockAcquire ix d, CounterAccess ix d Available, SpinLockRelease ix d]"
  "lock_discipline [SpinLockAcquire ix d, CounterAccess ix d Reconcile, SpinLockRelease ix d]"
  "lock_discipline [TraceOverflow d ov]"
  "lock_discipline [RequestCompleteWithInformation request status info]"
  by (simp_all add: lock_discipline_def)

lemma transfer_loop_discipline:
  assumes "lock_discipline evs"
  shows "lock_discipline (snd (snd (snd
    (transfer_loop cfg ix d hw_count len (sw_count, bytes, overflows, evs)))))"
proof (rule transfer_loop_rule [where I = "\<lambda>(sw, b, ov, es). lock_discipline es"])
  show "case (sw_count, bytes, overflows, evs) of (sw, b, ov, es) \<Rightarrow> lock_discipline es"
    using assms by simp
qed (auto intro: lock_discipline_append lock_discipline_blocks)

lemma lock_discipline_reconcile:
  "lock_discipline xs \<Longrightarrow>
   lock_discipline (SpinLockAcquire ix d # CounterAccess ix d Reconcile # SpinLockRelease ix d # xs)"
  by (simp add: lock_discipline_def)

lemma lock_discipline_tail:
  "lock_discipline ((if 0 < ov then [TraceOverflow d ov] else []) @
     (if 0 < b then [RequestCompleteWithInformation request status b] else []))"
  by (simp add: lock_discipline_def)

lemma ChannelRead_discipline: "lock_discipline (snd (litepciedrv_ChannelRead cfg fw c request len))"
proof -
  obtain sw b ov es where L:
    "transfer_loop cfg (index c) Writer (writer_hw_count (dma c)) len
       (writer_sw_count (dma c), 0, 0, []) = (sw, b, ov, es)"
    by (cases "transfer_loop cfg (index c) Writer (writer_hw_count (dma c)) len
       (writer_sw_count (dma c), 0, 0, [])") auto
  have es: "lock_discipline es"
    using transfer_loop_discipline [OF lock_discipline_blocks(1), of cfg "index c" Writer
      "writer_hw_count (dma c)" len "writer_sw_count (dma c)" 0 0] by (simp add: L)
  show ?thesis
  proof (cases "NT_SUCCESS (RetrieveOutputMemory fw request)")
    case False
    then have "snd (litepciedrv_ChannelRead cfg fw c request len) =
        [RequestCompleteWithInformation request (RetrieveOutputMemory fw request) 0]"
      by (simp add: litepciedrv_ChannelRead_def Let_def)
    then show ?thesis by (simp only: lock_discipline_blocks)
  next
    case True
    then have "snd (litepciedrv_ChannelRead cfg fw c request len) =
        es @ ((if 0 < ov then [TraceOverflow Writer ov] else []) @
          (if 0 < b then [RequestCompleteWithInformation request STATUS_SUCCESS b] else []))"
      by (simp add: litepciedrv_ChannelRead_def Let_def L)
    then show ?thesis
      using lock_discipline_append [OF es lock_discipline_tail [of ov Writer b request STATUS_SUCCESS]]
      by (simp only:)
  qed
qed

lemma ChannelWrite_discipline: "lock_discipline (snd (litepciedrv_ChannelWrite cfg fw c request len))"
proof -
  obtain sw b ov es where L:
    "transfer_loop cfg (index c) Reader (reader_hw_count (dma c)) len
       (reader_sw_count (dma c), 0, 0, []) = (sw, b, ov, es)"
    by (cases "transfer_loop cfg (index c) Reader (reader_hw_count (dma c)) len
       (reader_sw_count (dma c), 0, 0, [])") auto
  have es: "lock_discipline es"
    using transfer_loop_discipline [OF lock_discipline_blocks(1), of cfg "index c" Reader
      "reader_hw_count (dma c)" len "reader_sw_count (dma c)" 0 0] by (simp add: L)
  show ?thesis
  proof (cases "NT_SUCCESS (RetrieveInputMemory fw request)")
    case False
    then have "snd (litepciedrv_ChannelWrite cfg fw c request len) =
        [RequestCompleteWithInformation request (RetrieveInputMemory fw request) 0]"
      by (simp add: litepciedrv_ChannelWrite_def Let_def)
    then show ?thesis by (simp only: lock_discipline_blocks)
  next
    case True
    then have "snd (litepciedrv_ChannelWrite cfg fw c request len) =
        es @ ((if 0 < ov then [TraceOverflow Reader ov] else []) @
          (if 0 < b then [RequestCompleteWithInformation request STATUS_SUCCESS b] else []))"
      by (simp add: litepciedrv_ChannelWrite_def Let_def L)
    then show ?thesis
      using lock_discipline_append [OF es lock_discipline_tail [of ov Reader b request STATUS_SUCCESS]]
      by (simp only:)
  qed
qed

lemma dpc_reader_discipline:
  assumes "lock_discipline e"
  shows "lock_discipline (snd (snd (dpc_reader cfg csr fw regs irq_vector (c, m, e))))"
proof -
  have "\<exists>xs. lock_discipline xs \<and>
      snd (snd (dpc_reader cfg csr fw regs irq_vector (c, m, e))) = e @ xs"
  proof (cases "irq_vector AND push_bit (unat (reader_interrupt (dma c))) 1 \<noteq> 0")
    case False
    then have "snd (snd (dpc_reader cfg csr fw regs irq_vector (c, m, e))) = e @ []"
      by (simp add: dpc_reader_def)
    then show ?thesis using lock_discipline_blocks(1) by blast
  next
    case True
    show ?thesis
    proof (cases "writeRequest (dma c)")
      case None
      then have "snd (snd (dpc_reader cfg csr fw regs irq_vector (c, m, e))) =
          e @ (SpinLockAcquire (index c) Reader # CounterAccess (index c) Reader Reconcile #
               SpinLockRelease (index c) Reader # [])"
        using True by (simp add: dpc_reader_def Let_def)
      then show ?thesis
        using lock_discipline_reconcile [OF lock_discipline_blocks(1)] by blast
    next
      case (Some request)
      then obtain c1 where "snd (snd (dpc_reader cfg csr fw regs irq_vector (c, m, e))) =
          e @ (SpinLockAcquire (index c) Reader # CounterAccess (index c) Reader Reconcile #
               SpinLockRelease (index c) Reader #
               snd (litepciedrv_ChannelWrite cfg fw c1 request (writeRemainingBytes (dma c))))"
        using True by (simp add: dpc_reader_def Let_def)
      then show ?thesis
        using lock_discipline_reconcile [OF ChannelWrite_discipline] by blast
    qed
  qed
  then show ?thesis using assms lock_discipline_append by auto
qed

lemma dpc_writer_discipline:
  assumes "lock_discipline e"
  shows "lock_discipline (snd (snd (dpc_writer cfg csr fw regs irq_vector (c, m, e))))"
proof -
  have "\<exists>xs. lock_discipline xs \<and>
      snd (snd (dpc_writer cfg csr fw regs irq_vector (c, m, e))) = e @ xs"
  proof (cases "irq_vector AND push_bit (unat (writer_interrupt (dma c))) 1 \<noteq> 0")
    case False
    then have "snd (snd (dpc_writer cfg csr fw regs irq_vector (c, m, e))) = e @ []"
      by (simp add: dpc_writer_def)
    then show ?thesis using lock_discipline_blocks(1) by blast
  next
    case True
    show ?thesis
    proof (cases "readRequest (dma c)")
      case None
      then have "snd (snd (dpc_writer cfg csr fw regs irq_vector (c, m, e))) =
          e @ (SpinLockAcquire (index c) Writer # CounterAccess (index c) Writer Reconcile #
               SpinLockRelease (index c) Writer # [])"
        using True by (simp add: dpc_writer_def Let_def)
      then show ?thesis
        using lock_discipline_reconcile [OF lock_discipline_blocks(1)] by blast
    next
      case (Some request)
      then obtain c1 where "snd (snd (dpc_writer cfg csr fw regs irq_vector (c, m, e))) =
          e @ (SpinLockAcquire (index c) Writer # CounterAccess (index c) Writer Reconcile #
               SpinLockRelease (index c) Writer #
               snd (litepciedrv_ChannelRead cfg fw c1 request (readRemainingBytes (dma c))))"
        using True by (simp add: dpc_writer_def Let_def)
      then show ?thesis
        using lock_discipline_reconcile [OF ChannelRead_discipline] by blast
    qed
  qed
  then show ?thesis using assms lock_discipline_append by auto
qed

lemma dpc_loop_discipline:
  "lock_discipline evs \<Longrightarrow>
   lock_discipline (snd (snd (dpc_loop cfg csr fw regs irq_vector chans clear_mask evs)))"
proof (induction chans arbitrary: clear_mask evs)
  case Nil
  then show ?case by simp
next
  case (Cons pChan rest)
  obtain c1 m1 e1 where r: "dpc_reader cfg csr fw regs irq_vector (pChan, clear_mask, evs) = (c1, m1, e1)"
    by (cases "dpc_reader cfg csr fw regs irq_vector (pChan, clear_mask, evs)") auto
  obtain c2 m2 e2 where w: "dpc_writer cfg csr fw regs irq_vector (c1, m1, e1) = (c2, m2, e2)"
    by (cases "dpc_writer cfg csr fw regs irq_vector (c1, m1, e1)") auto
  obtain rest' m3 e3 where l: "dpc_loop cfg csr fw regs irq_vector rest m2 e2 = (rest', m3, e3)"
    by (cases "dpc_loop cfg csr fw regs irq_vector rest m2 e2") auto
  have "lock_discipline e1"
    using dpc_reader_discipline [OF Cons.prems, of cfg csr fw regs irq_vector pChan clear_mask]
    by (simp add: r)
  then have "lock_discipline e2"
    using dpc_writer_discipline [of e1 cfg csr fw regs irq_vector c1 m1] by (simp add: w)
  then have "lock_discipline e3"
    using Cons.IH [of e2 m2] by (simp add: l)
  then show ?case by (simp add: r w l)
qed

lemma EvtDpc_discipline: "lock_discipline (snd (litepcie_EvtDpc cfg csr fw regs dev))"
  using dpc_loop_discipline [OF lock_discipline_blocks(1), of cfg csr fw regs
      "irqs_pending dev AND regs (CSR_PCIE_MSI_ENABLE_ADDR csr)" "chan dev" 0]
  by (simp add: litepcie_EvtDpc_def Let_def case_prod_beta)

lemma descriptor_loop_discipline:
  "lock_discipline evs \<Longrightarrow> descriptor_loop cfg value_reg we_reg addr ix i evs = Some evs' \<Longrightarrow>
   lock_discipline evs'"
proof (induction cfg value_reg we_reg addr ix i evs rule: descriptor_loop.induct)
  case (1 cfg value_reg we_reg addr ix i evs)
  show ?case
  proof (cases "i < DMA_BUFFER_COUNT cfg")
    case False
    then have "evs' = evs" using "1.prems"(2) by (subst (asm) descriptor_loop.simps) simp
    then show ?thesis using "1.prems"(1) by simp
  next
    case True
    then have ok: "unat ix < length addr"
      using "1.prems"(2) by (subst (asm) descriptor_loop.simps) (simp split: if_splits)
    have rec: "descriptor_loop cfg value_reg we_reg addr ix (i + 1)
        (evs @ [RegWritel value_reg (descriptor_value cfg i),
                RegWritel (value_reg + 4) (LowPart (addr ! unat ix)),
                RegWritel we_reg (HighPart (addr ! unat ix))]) = Some evs'"
      using "1.prems"(2) True ok by (subst (asm) descriptor_loop.simps) simp
    have "lock_discipline (evs @ [RegWritel value_reg (descriptor_value cfg i),
                RegWritel (value_reg + 4) (LowPart (addr ! unat ix)),
                RegWritel we_reg (HighPart (addr ! unat ix))])"
      by (rule lock_discipline_append [OF "1.prems"(1)]) (simp add: lock_discipline_def)
    then show ?thesis by (rule "1.IH" [OF True ok _ rec])
  qed
qed

lemma start_stop_discipline:
  "litepcie_dma_writer_start cfg csr dev ix = Some (dev', evs) \<Longrightarrow> lock_discipline evs"
  "litepcie_dma_reader_start cfg csr dev ix = Some (dev', evs) \<Longrightarrow> lock_discipline evs"
  "litepcie_dma_writer_stop csr dev ix = Some (dev', evs) \<Longrightarrow> lock_discipline evs"
  "litepcie_dma_reader_stop csr dev ix = Some (dev', evs) \<Longrightarrow> lock_discipline evs"
proof -
  have three: "lock_discipline [RegWritel a x, RegWritel b y, RegWritel c z]" for a x b y c z
    by (simp add: lock_discipline_def)
  have tail: "lock_discipline [RegWritel a x, CounterAccess ix d Reset, RegWritel b y]" for a x d b y
    by (simp add: lock_discipline_def)
  show "litepcie_dma_writer_start cfg csr dev ix = Some (dev', evs) \<Longrightarrow> lock_discipline evs"
    by (auto simp add: litepcie_dma_writer_start_def Let_def split: if_splits option.splits
        intro!: lock_discipline_append tail intro: descriptor_loop_discipline [OF three])
  show "litepcie_dma_reader_start cfg csr dev ix = Some (dev', evs) \<Longrightarrow> lock_discipline evs"
    by (auto simp add: litepcie_dma_reader_start_def Let_def split: if_splits option.splits
        intro!: lock_discipline_append tail intro: descriptor_loop_discipline [OF three])
  show "litepcie_dma_writer_stop csr dev ix = Some (dev', evs) \<Longrightarrow> lock_discipline evs"
    by (auto simp add: litepcie_dma_writer_stop_def Let_def lock_discipline_def split: if_splits)
  show "litepcie_dma_reader_stop csr dev ix = Some (dev', evs) \<Longrightarrow> lock_discipline evs"
    by (auto simp add: litepcie_dma_reader_stop_def Let_def lock_discipline_def split: if_splits)
qed

text \<open>
  C9, as stated, fails: \<open>litepciedrv_ChannelRead\<close> and \<open>litepciedrv_ChannelWrite\<close> do not take the lock again after
  a copy. A read of one buffer with one buffer available takes the lock for
  \<open>available_count\<close> only; the read of \<open>sw_count\<close> for the slot index and the increment of
  \<open>sw_count\<close> after the copy are made without it.
\<close>

theorem lock_claim_counterexample:
  "snd (litepciedrv_ChannelRead (ring_config 8 4096 2) fw_ok
     ((scenario_chan 4096)\<lparr>dma := (dma (scenario_chan 4096))\<lparr>writer_hw_count := 1\<rparr>\<rparr>) 7 4096) =
     [SpinLockAcquire 0 Writer, CounterAccess 0 Writer Available, SpinLockRelease 0 Writer,
      CounterAccess 0 Writer SlotIndex, MemoryCopy Writer 0 0, CounterAccess 0 Writer Increment,
      RequestCompleteWithInformation 7 STATUS_SUCCESS 4096] \<and>
   \<not> all_accesses_locked (snd (litepciedrv_ChannelRead (ring_config 8 4096 2) fw_ok
     ((scenario_chan 4096)\<lparr>dma := (dma (scenario_chan 4096))\<lparr>writer_hw_count := 1\<rparr>\<rparr>) 7 4096))"
  by (simp add: all_accesses_locked_def litepciedrv_ChannelRead_def fw_ok_def NT_SUCCESS_def STATUS_SUCCESS_def
      scenario_chan_def cleared_dma_chan_def ring_config_def transfer_loop.simps slot_index_def
      word_sless_alt word_sle_eq smod_int_alt_def)

text \<open>
  C9, amended. In every operation of the core (\<open>litepciedrv_ChannelRead\<close>, \<open>litepciedrv_ChannelWrite\<close>, the
  deferred interrupt pass, start and stop of either direction), the computation of
  \<open>available_count\<close> and the reconciliation of \<open>hw_count\<close> and \<open>hw_count_last\<close> are made while
  holding the lock of their channel and direction, no lock is held during a buffer
  copy, and no lock is held at the end. The read of \<open>sw_count\<close> for the slot index of a
  copy, the increment of \<open>sw_count\<close> after the copy and the counter resets of start and
  stop are made without the lock.
\<close>

theorem core_lock_discipline:
  "lock_discipline (snd (litepciedrv_ChannelRead cfg fw c request len)) \<and>
   lock_discipline (snd (litepciedrv_ChannelWrite cfg fw c request len)) \<and>
   lock_discipline (snd (litepcie_EvtDpc cfg csr fw regs dev)) \<and>
   (\<forall>dev' evs. litepcie_dma_writer_start cfg csr dev ix = Some (dev', evs) \<longrightarrow> lock_discipline evs) \<and>
   (\<forall>dev' evs. litepcie_dma_reader_start cfg csr dev ix = Some (dev', evs) \<longrightarrow> lock_discipline evs) \<and>
   (\<forall>dev' evs. litepcie_dma_writer_stop csr dev ix = Some (dev', evs) \<longrightarrow> lock_discipline evs) \<and>
   (\<forall>dev' evs. litepcie_dma_reader_stop csr dev ix = Some (dev', evs) \<longrightarrow> lock_discipline evs)"
proof (intro conjI allI impI)
  show "lock_discipline (snd (litepciedrv_ChannelRead cfg fw c request len))"
    by (rule ChannelRead_discipline)
  show "lock_discipline (snd (litepciedrv_ChannelWrite cfg fw c request len))"
    by (rule ChannelWrite_discipline)
  show "lock_discipline (snd (litepcie_EvtDpc cfg csr fw regs dev))"
    by (rule EvtDpc_discipline)
qed (erule start_stop_discipline)+

theorem core_lock_discipline_witness:
  "litepcie_dma_writer_stop scenario_csr (scenario_dev (scenario_chan 4096) 0) 0 =
     Some (scenario_dev (scenario_chan 4096) 0,
       [RegWritel 0x2010 0, RegWritel 0x201c 1, StallExecutionProcessor 1000,
        RegWritel 0x2000 0, RegWritel 0x201c 1, CounterAccess 0 Writer Reset]) \<and>
   lock_discipline
       [RegWritel 0x2010 0, RegWritel 0x201c 1, StallExecutionProcessor 1000,
        RegWritel 0x2000 0, RegWritel 0x201c 1, CounterAccess 0 Writer Reset] \<and>
   lock_discipline (snd (litepciedrv_ChannelRead (ring_config 8 4096 2) fw_ok
     ((scenario_chan 4096)\<lparr>dma := (dma (scenario_chan 4096))\<lparr>writer_hw_count := 1\<rparr>\<rparr>) 7 4096))"
proof -
  have stop: "litepcie_dma_writer_stop scenario_csr (scenario_dev (scenario_chan 4096) 0) 0 =
     Some (scenario_dev (scenario_chan 4096) 0,
       [RegWritel 0x2010 0, RegWritel 0x201c 1, StallExecutionProcessor 1000,
        RegWritel 0x2000 0, RegWritel 0x201c 1, CounterAccess 0 Writer Reset])"
    by (simp add: litepcie_dma_writer_stop_def scenario_dev_def scenario_chan_def
        cleared_dma_chan_def scenario_csr_def Let_def)
  note d = core_lock_discipline [of "ring_config 8 4096 2" fw_ok
      "(scenario_chan 4096)\<lparr>dma := (dma (scenario_chan 4096))\<lparr>writer_hw_count := 1\<rparr>\<rparr>" 7 4096
      scenario_csr "scenario_regs 0 0 0" "scenario_dev (scenario_chan 4096) 0" 0]
  from d stop have "lock_discipline
       [RegWritel 0x2010 0, RegWritel 0x201c 1, StallExecutionProcessor 1000,
        RegWritel 0x2000 0, RegWritel 0x201c 1, CounterAccess 0 Writer Reset]"
    by blast
  moreover from d have "lock_discipline (snd (litepciedrv_ChannelRead (ring_config 8 4096 2) fw_ok
     ((scenario_chan 4096)\<lparr>dma := (dma (scenario_chan 4096))\<lparr>writer_hw_count := 1\<rparr>\<rparr>) 7 4096))"
    by blast
  ultimately show ?thesis using stop by blast
qed

section \<open>Ring start\<close>

text \<open>
  C6. The descriptors that ring start writes, on channel 0 with two ring slots per
  direction (writer buffers at \<open>0x20000000\<close> and \<open>0x20002000\<close>, reader buffers at
  \<open>0x10000000\<close> and \<open>0x10002000\<close>), buffer size 4096 and an interrupt every second slot.
  Both starts disable the direction, flush, write one descriptor per slot with the
  buffer size and the interrupt-suppression flag (bit 24) on slot 1 only, close the
  loop, reset the counters and enable the direction. But every descriptor carries
  the address \<open>writer_addr[index]\<close>, \<open>index\<close> being the channel number: slot 1 of the
  writer gets the address of slot 0, and both slots of the reader get the address of
  the writer's slot 0.
\<close>

theorem ring_start_descriptor_addresses:
  "writer_addr (dma (scenario_chan 4096)) = [0x20000000, 0x20002000] \<and>
   reader_addr (dma (scenario_chan 4096)) = [0x10000000, 0x10002000] \<and>
   map_option snd (litepcie_dma_writer_start (ring_config 2 4096 2) scenario_csr
       (scenario_dev (scenario_chan 4096) 0) 0) =
     Some [RegWritel 0x2000 0, RegWritel 0x201c 1, RegWritel 0x2010 0,
           RegWritel 0x2004 0x2001000, RegWritel 0x2008 0x20000000, RegWritel 0x200c 0,
           RegWritel 0x2004 0x3001000, RegWritel 0x2008 0x20000000, RegWritel 0x200c 0,
           RegWritel 0x2010 1, CounterAccess 0 Writer Reset, RegWritel 0x2000 1] \<and>
   map_option snd (litepcie_dma_reader_start (ring_config 2 4096 2) scenario_csr
       (scenario_dev (scenario_chan 4096) 0) 0) =
     Some [RegWritel 0x2020 0, RegWritel 0x203c 1, RegWritel 0x2030 0,
           RegWritel 0x2024 0x2001000, RegWritel 0x2028 0x20000000, RegWritel 0x202c 0,
           RegWritel 0x2024 0x3001000, RegWritel 0x2028 0x20000000, RegWritel 0x202c 0,
           RegWritel 0x2030 1, CounterAccess 0 Reader Reset, RegWritel 0x2020 1]"
  by (simp add: litepcie_dma_writer_start_def litepcie_dma_reader_start_def scenario_dev_def
      scenario_chan_def cleared_dma_chan_def scenario_csr_def ring_config_def Let_def
      descriptor_loop.simps descriptor_value_def LowPart_def HighPart_def)

end
